theory Spec2Isabelle
  imports Main "HOL-Library.AList"
begin

section \<open>MetricsManager: log source credentials\<close>

text \<open>
  The platform uids \<open>AID_ROOT\<close>, \<open>AID_SYSTEM\<close> and \<open>AID_SHELL\<close> come from the
  platform header \<open>android_filesystem_config.h\<close>, which is not part of this
  repository: they are parameters of the model.
\<close>

record aid_config =
  AID_ROOT :: int
  AID_SYSTEM :: int
  AID_SHELL :: int

text \<open>The two accessors of \<open>LogEvent\<close> that \<open>checkLogCredentials\<close> reads.\<close>

record log_event_header =
  GetTagId :: int
  GetUid :: int

text \<open>The members of \<open>MetricsManager\<close> read by \<open>checkLogCredentials\<close>
  (both are \<open>std::set<int32_t>\<close>).\<close>

record log_source_state =
  mWhitelistedAtomIds :: "int set"
  mAllowedLogSources :: "int set"

definition checkLogCredentials ::
  "aid_config \<Rightarrow> log_source_state \<Rightarrow> log_event_header \<Rightarrow> bool" where
  "checkLogCredentials aid m event =
     (if GetTagId event \<in> mWhitelistedAtomIds m then True
      else if GetUid event = AID_ROOT aid \<or>
              (GetUid event \<ge> AID_SYSTEM aid \<and> GetUid event < AID_SHELL aid) then True
      else if GetUid event \<notin> mAllowedLogSources m then False
      else True)"


section \<open>DurationMetricProducer\<close>

text \<open>
  The C++ integers \<open>int64_t\<close> and \<open>size_t\<close> are modelled as \<open>int\<close> and \<open>nat\<close>.
  The arithmetic of the bucket bounds is written out as the machine does it: a result
  that leaves the 64 bits of \<open>int64_t\<close> or the 32 bits of \<open>int\<close> wraps around
  (\<open>narrow_int64\<close>, \<open>narrow_int32\<close>), a value stored in an \<open>int\<close> is narrowed, \<open>/\<close> on
  \<open>int64_t\<close> truncates towards zero, and a division by zero, or of the least
  \<open>int64_t\<close> by -1, traps the process: a function that can trap returns an option, and
  \<open>None\<close> is the trap.
\<close>

definition narrow_int32 :: "int \<Rightarrow> int" where
  "narrow_int32 x = (x + 2 ^ 31) mod 2 ^ 32 - 2 ^ 31"

definition narrow_int64 :: "int \<Rightarrow> int" where
  "narrow_int64 x = (x + 2 ^ 63) mod 2 ^ 64 - 2 ^ 63"

definition cdiv :: "int \<Rightarrow> int \<Rightarrow> int" where
  "cdiv a b = sgn a * sgn b * (\<bar>a\<bar> div \<bar>b\<bar>)"

definition int64_div_traps :: "int \<Rightarrow> int \<Rightarrow> bool" where
  "int64_div_traps a b \<longleftrightarrow> b = 0 \<or> (a = - (2 ^ 63) \<and> b = - 1)"

text \<open>The enumerators of \<open>ConditionState\<close> that the producer names.\<close>

datatype ConditionState = kUnknown | kFalse | kTrue

datatype AggregationType = DurationMetric_AggregationType_SUM
  | DurationMetric_AggregationType_MAX_SPARSE

text \<open>\<open>HashableDimensionKey\<close> wraps the vector \<open>mValues\<close>; \<open>MetricDimensionKey\<close> is the
  pair \<open>(mDimensionKeyInWhat, mStateValuesKey)\<close>; \<open>ConditionKey\<close> is a
  \<open>std::map\<close> from condition id to dimension key.\<close>

type_synonym 'fv HashableDimensionKey = "'fv list"
type_synonym 'fv MetricDimensionKey = "'fv list \<times> 'fv list"
type_synonym 'fv ConditionKey = "int \<rightharpoonup> 'fv list"
type_synonym ConfigKey = "int \<times> int"

definition DEFAULT_DIMENSION_KEY :: "'fv HashableDimensionKey" where
  "DEFAULT_DIMENSION_KEY = []"

definition getDimensionKeyInWhat :: "'fv MetricDimensionKey \<Rightarrow> 'fv HashableDimensionKey" where
  "getDimensionKeyInWhat k = fst k"

record 'm Metric2Condition =
  conditionId :: int
  metricFields :: "'m list"
  conditionFields :: "'m list"

record 'm Metric2State =
  stateAtomId :: int
  stateMetricFields :: "'m list"
  stateFields :: "'m list"

text \<open>The calls on the \<open>StatsdStats\<close> singleton made by the functions below, in order.\<close>

datatype stats_call =
    noteBucketCount int
  | noteMetricDimensionSize ConfigKey int nat
  | noteHardDimensionLimitReached int

text \<open>The arguments \<open>createDurationTracker\<close> hands to the tracker constructors. The
  condition wizard and the anomaly trackers, shared objects that live outside the
  producer, are not part of the model.\<close>

record 'fv tracker_args =
  arg_configKey :: ConfigKey
  arg_metricId :: int
  arg_eventKey :: "'fv MetricDimensionKey"
  arg_conditionTrackerIndex :: int
  arg_nesting :: bool
  arg_currentBucketStartNs :: int
  arg_currentBucketNum :: int
  arg_startTimeNs :: int
  arg_bucketSizeNs :: int
  arg_conditionSliced :: bool
  arg_fullLink :: bool

text \<open>The members of the producer that the modelled functions read or write, and the
  \<open>StatsdStats\<close> singleton as the list of calls made on it.
  \<open>mCurrentSlicedDurationTrackerMap\<close> is an \<open>unordered_map\<close> from the what-key to
  the tracker it owns: the model keeps it as an association list with distinct keys,
  in the order the map iterates; a new key goes to the end.\<close>

record ('fv, 'm, 'tr, 'ct, 'pb, 'ut) DurationMetricProducer =
  mMetricId :: int
  mConfigKey :: ConfigKey
  mTimeBaseNs :: int
  mBucketSizeNs :: int
  mCurrentBucketNum :: int
  mCurrentBucketStartTimeNs :: int
  mIsActive :: bool
  mCondition :: ConditionState
  mConditionSliced :: bool
  mConditionTrackerIndex :: int
  mNested :: bool
  mAggregationType :: AggregationType
  mStopIndex :: int
  mStopAllIndex :: int
  mUseWhatDimensionAsInternalDimension :: bool
  mDimensionsInWhat :: "'m list"
  mInternalDimensions :: "'m list"
  mMetric2ConditionLinks :: "'m Metric2Condition list"
  mMetric2StateLinks :: "'m Metric2State list"
  mSlicedStateAtoms :: "int list"
  mHasLinksToAllConditionDimensionsInTracker :: bool
  mDimensionHardLimit :: nat
  mHasHitGuardrail :: bool
  mUploadThreshold :: "'ut option"
  mCurrentSlicedDurationTrackerMap :: "('fv HashableDimensionKey \<times> 'tr) list"
  mPastBuckets :: 'pb
  mConditionTimer :: 'ct
  statsdStats :: "stats_call list"

text \<open>
  The collaborators whose code is outside the modelled file: the duration trackers
  (\<open>OringDurationTracker\<close>, \<open>MaxDurationTracker\<close>), the \<open>ConditionTimer\<close>, the
  \<open>ConditionWizard\<close>, the state manager, the field filters and the constants of
  \<open>StatsdStats\<close> and \<open>MetricProducer\<close>. Each is a parameter; a tracker method is a
  function on the tracker's own state \<open>'tr\<close> (and on \<open>mPastBuckets\<close> where the source
  passes it).
\<close>

record ('fv, 'm, 'tr, 'ct, 'pb, 'ut) duration_env =
  kDimensionKeySizeSoftLimit :: nat
  passesSampleCheckLocked :: "'fv list \<Rightarrow> bool"
  filterValues :: "'m list \<Rightarrow> 'fv list \<Rightarrow> 'fv HashableDimensionKey \<Rightarrow> 'fv HashableDimensionKey"
  getDimensionForState :: "'fv list \<Rightarrow> 'm Metric2State \<Rightarrow> 'fv HashableDimensionKey
      \<Rightarrow> 'fv HashableDimensionKey"
  getDimensionForCondition :: "'fv list \<Rightarrow> 'm Metric2Condition \<Rightarrow> 'fv HashableDimensionKey
      \<Rightarrow> 'fv HashableDimensionKey"
  queryStateValue :: "int \<Rightarrow> 'fv HashableDimensionKey \<Rightarrow> 'fv"
  mapStateValue :: "int \<Rightarrow> 'fv \<Rightarrow> 'fv"
  wizard_query :: "int \<Rightarrow> 'fv ConditionKey \<Rightarrow> bool \<Rightarrow> ConditionState"
  newOringDurationTracker :: "'fv tracker_args \<Rightarrow> 'tr"
  newMaxDurationTracker :: "'fv tracker_args \<Rightarrow> 'tr"
  noteStart :: "'fv HashableDimensionKey \<Rightarrow> bool \<Rightarrow> int \<Rightarrow> 'fv ConditionKey \<Rightarrow> nat
      \<Rightarrow> 'tr \<Rightarrow> 'tr"
  noteStop :: "'fv HashableDimensionKey \<Rightarrow> int \<Rightarrow> bool \<Rightarrow> 'tr \<Rightarrow> 'tr"
  noteStopAll :: "int \<Rightarrow> 'tr \<Rightarrow> 'tr"
  hasAccumulatedDuration :: "'tr \<Rightarrow> bool"
  flushCurrentBucket :: "int \<Rightarrow> 'ut option \<Rightarrow> int \<Rightarrow> 'tr \<Rightarrow> 'pb \<Rightarrow> bool \<times> 'tr \<times> 'pb"
  newBucketStart :: "int \<Rightarrow> int \<Rightarrow> 'ct \<Rightarrow> (int \<times> int) \<times> 'ct"

text \<open>
  Modelled from the spec: \<open>MetricProducer::getCurrentBucketEndTimeNs\<close>, a method of the
  base class whose header is not among the sources. The spec gives a bucket's start time
  as time base + bucketSize * bucketNum; the current bucket ends where the bucket with
  the next number starts. The method returns an \<open>int64_t\<close>, and the sum and the product
  are taken in 64 bits.
\<close>

definition getCurrentBucketEndTimeNs ::
  "('fv, 'm, 'tr, 'ct, 'pb, 'ut) DurationMetricProducer \<Rightarrow> int" where
  "getCurrentBucketEndTimeNs s =
     narrow_int64 (mTimeBaseNs s +
       narrow_int64 (narrow_int64 (mCurrentBucketNum s + 1) * mBucketSizeNs s))"

text \<open>The loop of \<open>flushCurrentBucketLocked\<close> over the tracker map: a tracker whose
  \<open>flushCurrentBucket\<close> returns true is erased.\<close>

fun flushTrackers ::
  "('fv, 'm, 'tr, 'ct, 'pb, 'ut) duration_env \<Rightarrow> int \<Rightarrow> 'ut option \<Rightarrow> int
     \<Rightarrow> ('fv HashableDimensionKey \<times> 'tr) list \<Rightarrow> 'pb
     \<Rightarrow> ('fv HashableDimensionKey \<times> 'tr) list \<times> 'pb" where
  "flushTrackers env t ut g [] pb = ([], pb)"
| "flushTrackers env t ut g ((k, tr) # rest) pb =
     (case flushCurrentBucket env t ut g tr pb of
        (erase, tr', pb') \<Rightarrow>
          (case flushTrackers env t ut g rest pb' of
             (rest', pb'') \<Rightarrow> (if erase then rest' else (k, tr') # rest', pb'')))"

definition flushCurrentBucketLocked ::
  "('fv, 'm, 'tr, 'ct, 'pb, 'ut) duration_env \<Rightarrow> int \<Rightarrow> int
     \<Rightarrow> ('fv, 'm, 'tr, 'ct, 'pb, 'ut) DurationMetricProducer
     \<Rightarrow> ('fv, 'm, 'tr, 'ct, 'pb, 'ut) DurationMetricProducer" where
  "flushCurrentBucketLocked env eventTimeNs nextBucketStartTimeNs s =
     (case newBucketStart env eventTimeNs nextBucketStartTimeNs (mConditionTimer s) of
        ((globalConditionTrueNs, globalConditionCorrectionNs), timer') \<Rightarrow>
          (case flushTrackers env eventTimeNs (mUploadThreshold s) globalConditionTrueNs
                  (mCurrentSlicedDurationTrackerMap s) (mPastBuckets s) of
             (trackers', past') \<Rightarrow>
               s\<lparr>mConditionTimer := timer',
                 mCurrentSlicedDurationTrackerMap := trackers',
                 mPastBuckets := past',
                 statsdStats := statsdStats s @ [noteBucketCount (mMetricId s)],
                 mCurrentBucketStartTimeNs := nextBucketStartTimeNs,
                 mHasHitGuardrail := False\<rparr>))"

text \<open>
  \<open>flushIfNeededLocked\<close>: the difference and the quotient are \<open>int64_t\<close>, the number of
  buckets is stored in an \<open>int\<close>, \<open>numBucketsForward - 1\<close> is \<open>int\<close> arithmetic, and its
  product with the bucket size and the sums are \<open>int64_t\<close> again. The division traps
  before anything is flushed.
\<close>

definition flushIfNeededLocked ::
  "('fv, 'm, 'tr, 'ct, 'pb, 'ut) duration_env \<Rightarrow> int
     \<Rightarrow> ('fv, 'm, 'tr, 'ct, 'pb, 'ut) DurationMetricProducer
     \<Rightarrow> ('fv, 'm, 'tr, 'ct, 'pb, 'ut) DurationMetricProducer option" where
  "flushIfNeededLocked env eventTimeNs s =
     (let currentBucketEndTimeNs = getCurrentBucketEndTimeNs s in
      if currentBucketEndTimeNs > eventTimeNs then Some s
      else
        let elapsedNs = narrow_int64 (eventTimeNs - currentBucketEndTimeNs) in
        if int64_div_traps elapsedNs (mBucketSizeNs s) then None
        else
          let numBucketsForward =
                narrow_int32 (narrow_int64 (1 + cdiv elapsedNs (mBucketSizeNs s)));
              nextBucketNs =
                narrow_int64 (currentBucketEndTimeNs +
                  narrow_int64 (narrow_int32 (numBucketsForward - 1) * mBucketSizeNs s));
              s' = flushCurrentBucketLocked env eventTimeNs nextBucketNs s
          in Some (s'\<lparr>mCurrentBucketNum :=
                        narrow_int64 (mCurrentBucketNum s' + numBucketsForward)\<rparr>))"


text \<open>\<open>hitGuardRailLocked\<close> is a \<open>const\<close> method that writes the \<open>mutable\<close> member
  \<open>mHasHitGuardrail\<close> and calls \<open>StatsdStats\<close>: the model returns the answer and the
  producer. \<open>size()\<close> of the tracker map is the length of the association list.\<close>

definition hitGuardRailLocked ::
  "('fv, 'm, 'tr, 'ct, 'pb, 'ut) duration_env \<Rightarrow> 'fv MetricDimensionKey
     \<Rightarrow> ('fv, 'm, 'tr, 'ct, 'pb, 'ut) DurationMetricProducer
     \<Rightarrow> bool \<times> ('fv, 'm, 'tr, 'ct, 'pb, 'ut) DurationMetricProducer" where
  "hitGuardRailLocked env newKey s =
     (if map_of (mCurrentSlicedDurationTrackerMap s) (getDimensionKeyInWhat newKey) = None then
        if length (mCurrentSlicedDurationTrackerMap s) \<ge> kDimensionKeySizeSoftLimit env then
          let newTupleCount = length (mCurrentSlicedDurationTrackerMap s) + 1;
              s1 = s\<lparr>statsdStats := statsdStats s @
                     [noteMetricDimensionSize (mConfigKey s) (mMetricId s) newTupleCount]\<rparr>
          in if newTupleCount > mDimensionHardLimit s1 then
               let s2 = (if \<not> mHasHitGuardrail s1 then s1\<lparr>mHasHitGuardrail := True\<rparr> else s1)
               in (True, s2\<lparr>statsdStats := statsdStats s2 @
                                [noteHardDimensionLimitReached (mMetricId s2)]\<rparr>)
             else (False, s1)
        else (False, s)
      else (False, s))"

definition createDurationTracker ::
  "('fv, 'm, 'tr, 'ct, 'pb, 'ut) duration_env \<Rightarrow> 'fv MetricDimensionKey
     \<Rightarrow> ('fv, 'm, 'tr, 'ct, 'pb, 'ut) DurationMetricProducer \<Rightarrow> 'tr" where
  "createDurationTracker env eventKey s =
     (let args = \<lparr>arg_configKey = mConfigKey s, arg_metricId = mMetricId s,
                   arg_eventKey = eventKey,
                   arg_conditionTrackerIndex = mConditionTrackerIndex s,
                   arg_nesting = mNested s,
                   arg_currentBucketStartNs = mCurrentBucketStartTimeNs s,
                   arg_currentBucketNum = mCurrentBucketNum s,
                   arg_startTimeNs = mTimeBaseNs s,
                   arg_bucketSizeNs = mBucketSizeNs s,
                   arg_conditionSliced = mConditionSliced s,
                   arg_fullLink = mHasLinksToAllConditionDimensionsInTracker s\<rparr>
      in case mAggregationType s of
           DurationMetric_AggregationType_SUM \<Rightarrow> newOringDurationTracker env args
         | DurationMetric_AggregationType_MAX_SPARSE \<Rightarrow> newMaxDurationTracker env args)"

definition handleStartEvent ::
  "('fv, 'm, 'tr, 'ct, 'pb, 'ut) duration_env \<Rightarrow> 'fv MetricDimensionKey \<Rightarrow> 'fv ConditionKey
     \<Rightarrow> bool \<Rightarrow> int \<Rightarrow> 'fv list
     \<Rightarrow> ('fv, 'm, 'tr, 'ct, 'pb, 'ut) DurationMetricProducer
     \<Rightarrow> ('fv, 'm, 'tr, 'ct, 'pb, 'ut) DurationMetricProducer" where
  "handleStartEvent env eventKey conditionKeys condition eventTimeNs eventValues s =
     (let whatKey = getDimensionKeyInWhat eventKey;
          absent = (map_of (mCurrentSlicedDurationTrackerMap s) whatKey = None);
          guard = hitGuardRailLocked env eventKey s
      in if absent \<and> fst guard then snd guard
         else
           let s1 = (if absent
                     then (snd guard)\<lparr>mCurrentSlicedDurationTrackerMap :=
                            AList.update whatKey (createDurationTracker env eventKey (snd guard))
                              (mCurrentSlicedDurationTrackerMap (snd guard))\<rparr>
                     else s);
               dimensionKey =
                 (if mUseWhatDimensionAsInternalDimension s1 then whatKey
                  else if mInternalDimensions s1 = [] then DEFAULT_DIMENSION_KEY
                  else filterValues env (mInternalDimensions s1) eventValues DEFAULT_DIMENSION_KEY)
           in s1\<lparr>mCurrentSlicedDurationTrackerMap :=
                   AList.map_entry whatKey
                     (noteStart env dimensionKey condition eventTimeNs conditionKeys
                        (mDimensionHardLimit s1))
                     (mCurrentSlicedDurationTrackerMap s1)\<rparr>)"

text \<open>The stop-all loop of \<open>handleMatchedLogEventValuesLocked\<close>.\<close>

fun stopAllTrackers ::
  "('fv, 'm, 'tr, 'ct, 'pb, 'ut) duration_env \<Rightarrow> int
     \<Rightarrow> ('fv HashableDimensionKey \<times> 'tr) list \<Rightarrow> ('fv HashableDimensionKey \<times> 'tr) list" where
  "stopAllTrackers env t [] = []"
| "stopAllTrackers env t ((k, tr) # rest) =
     (let tr' = noteStopAll env t tr
      in if \<not> hasAccumulatedDuration env tr' then stopAllTrackers env t rest
         else (k, tr') # stopAllTrackers env t rest)"

text \<open>The body shared by the two stop branches: \<open>find\<close>, \<open>noteStop\<close>, and \<open>erase\<close> when
  nothing is accumulated any more.\<close>

definition stopTracker ::
  "('fv, 'm, 'tr, 'ct, 'pb, 'ut) duration_env \<Rightarrow> 'fv HashableDimensionKey
     \<Rightarrow> 'fv HashableDimensionKey \<Rightarrow> int
     \<Rightarrow> ('fv HashableDimensionKey \<times> 'tr) list \<Rightarrow> ('fv HashableDimensionKey \<times> 'tr) list" where
  "stopTracker env dimensionInWhat key t trackers =
     (case map_of trackers dimensionInWhat of
        None \<Rightarrow> trackers
      | Some tr \<Rightarrow>
          (let tr' = noteStop env key t False tr
           in if \<not> hasAccumulatedDuration env tr' then AList.delete dimensionInWhat trackers
              else AList.update dimensionInWhat tr' trackers))"

text \<open>The loops that fill \<open>statePrimaryKeys\<close>, \<open>stateValuesKey\<close> and \<open>conditionKey\<close>:
  \<open>operator[]\<close> creates an empty key where the map has none.\<close>

definition statePrimaryKeysOf ::
  "('fv, 'm, 'tr, 'ct, 'pb, 'ut) duration_env \<Rightarrow> 'fv list \<Rightarrow> 'm Metric2State list
     \<Rightarrow> (int \<rightharpoonup> 'fv HashableDimensionKey)" where
  "statePrimaryKeysOf env values links =
     fold (\<lambda>stateLink m.
             m(stateAtomId stateLink \<mapsto>
                 getDimensionForState env values stateLink
                   (case m (stateAtomId stateLink) of None \<Rightarrow> [] | Some k \<Rightarrow> k)))
          links Map.empty"

definition stateValuesKeyOf ::
  "('fv, 'm, 'tr, 'ct, 'pb, 'ut) duration_env \<Rightarrow> (int \<rightharpoonup> 'fv HashableDimensionKey) \<Rightarrow> int list
     \<Rightarrow> 'fv HashableDimensionKey" where
  "stateValuesKeyOf env statePrimaryKeys atoms =
     map (\<lambda>atomId.
            mapStateValue env atomId
              (case statePrimaryKeys atomId of
                 Some k \<Rightarrow> queryStateValue env atomId k
               | None \<Rightarrow> queryStateValue env atomId DEFAULT_DIMENSION_KEY))
         atoms"

definition conditionKeyOf ::
  "('fv, 'm, 'tr, 'ct, 'pb, 'ut) duration_env \<Rightarrow> 'fv list \<Rightarrow> 'm Metric2Condition list
     \<Rightarrow> 'fv ConditionKey" where
  "conditionKeyOf env values links =
     fold (\<lambda>link m.
             m(conditionId link \<mapsto>
                 getDimensionForCondition env values link
                   (case m (conditionId link) of None \<Rightarrow> [] | Some k \<Rightarrow> k)))
          links Map.empty"

text \<open>\<open>handleMatchedLogEventValuesLocked\<close>: the flush comes first, and only for an
  active producer; the event is then handled on the producer the flush has left. The
  result is \<open>None\<close> when the division of the flush traps.\<close>

definition handleMatchedLogEventValuesLocked ::
  "('fv, 'm, 'tr, 'ct, 'pb, 'ut) duration_env \<Rightarrow> nat \<Rightarrow> 'fv list \<Rightarrow> int
     \<Rightarrow> ('fv, 'm, 'tr, 'ct, 'pb, 'ut) DurationMetricProducer
     \<Rightarrow> ('fv, 'm, 'tr, 'ct, 'pb, 'ut) DurationMetricProducer option" where
  "handleMatchedLogEventValuesLocked env matcherIndex values eventTimeNs s =
     (if eventTimeNs < mTimeBaseNs s then Some s
      else
        case (if mIsActive s then flushIfNeededLocked env eventTimeNs s else Some s) of
          None \<Rightarrow> None
        | Some s1 \<Rightarrow>
        Some (
        if narrow_int32 (int matcherIndex) = mStopAllIndex s1 then
          s1\<lparr>mCurrentSlicedDurationTrackerMap :=
               stopAllTrackers env eventTimeNs (mCurrentSlicedDurationTrackerMap s1)\<rparr>
        else if \<not> passesSampleCheckLocked env values then s1
        else
          let dimensionInWhat =
                (if mDimensionsInWhat s1 \<noteq> []
                 then filterValues env (mDimensionsInWhat s1) values DEFAULT_DIMENSION_KEY
                 else DEFAULT_DIMENSION_KEY);
              statePrimaryKeys = statePrimaryKeysOf env values (mMetric2StateLinks s1);
              stateValuesKey = stateValuesKeyOf env statePrimaryKeys (mSlicedStateAtoms s1)
          in
          if narrow_int32 (int matcherIndex) = mStopIndex s1 then
            if mUseWhatDimensionAsInternalDimension s1 then
              s1\<lparr>mCurrentSlicedDurationTrackerMap :=
                   stopTracker env dimensionInWhat dimensionInWhat eventTimeNs
                     (mCurrentSlicedDurationTrackerMap s1)\<rparr>
            else
              let internalDimensionKey =
                    (if mInternalDimensions s1 \<noteq> []
                     then filterValues env (mInternalDimensions s1) values DEFAULT_DIMENSION_KEY
                     else DEFAULT_DIMENSION_KEY)
              in s1\<lparr>mCurrentSlicedDurationTrackerMap :=
                      stopTracker env dimensionInWhat internalDimensionKey eventTimeNs
                        (mCurrentSlicedDurationTrackerMap s1)\<rparr>
          else
            let conditionKey =
                  (if mConditionSliced s1
                   then conditionKeyOf env values (mMetric2ConditionLinks s1)
                   else Map.empty);
                condition =
                  (if mConditionSliced s1
                   then wizard_query env (mConditionTrackerIndex s1) conditionKey
                          (\<not> mHasLinksToAllConditionDimensionsInTracker s1) = kTrue
                   else mCondition s1 = kTrue);
                condition' = (condition \<and> mIsActive s1)
            in handleStartEvent env (dimensionInWhat, stateValuesKey) conditionKey condition'
                 eventTimeNs values s1))"


text \<open>
  An instance of the collaborators on which the model runs: a field value and a matcher
  are integers, a tracker is the list of the conditions of its live starts,
  \<open>mPastBuckets\<close> counts the buckets written, and the filter keeps the values that a
  matcher names.
\<close>

definition recording_env :: "(int, int, bool list, unit, nat, unit) duration_env" where
  "recording_env =
     \<lparr>kDimensionKeySizeSoftLimit = 1,
      passesSampleCheckLocked = (\<lambda>values. True),
      filterValues = (\<lambda>matchers values output. output @ filter (\<lambda>v. v \<in> set matchers) values),
      getDimensionForState = (\<lambda>values link output. output),
      getDimensionForCondition = (\<lambda>values link output. output),
      queryStateValue = (\<lambda>atomId key. 0),
      mapStateValue = (\<lambda>atomId value. value),
      wizard_query = (\<lambda>index key partial. kTrue),
      newOringDurationTracker = (\<lambda>args. []),
      newMaxDurationTracker = (\<lambda>args. []),
      noteStart = (\<lambda>key condition t conditionKeys limit tr. tr @ [condition]),
      noteStop = (\<lambda>key t stopAll tr. butlast tr),
      noteStopAll = (\<lambda>t tr. []),
      hasAccumulatedDuration = (\<lambda>tr. tr \<noteq> []),
      flushCurrentBucket = (\<lambda>t threshold conditionTrueNs tr past. (tr = [], tr, Suc past)),
      newBucketStart = (\<lambda>t next timer. ((0, 0), timer))\<rparr>"

definition one_key_producer ::
  "(int, int, bool list, unit, nat, unit) DurationMetricProducer" where
  "one_key_producer =
     \<lparr>mMetricId = 7, mConfigKey = (1000, 12345), mTimeBaseNs = 100, mBucketSizeNs = 60,
      mCurrentBucketNum = 0, mCurrentBucketStartTimeNs = 100, mIsActive = True,
      mCondition = kUnknown, mConditionSliced = False, mConditionTrackerIndex = -1,
      mNested = True, mAggregationType = DurationMetric_AggregationType_SUM,
      mStopIndex = 1, mStopAllIndex = 2, mUseWhatDimensionAsInternalDimension = True,
      mDimensionsInWhat = [1, 2, 3], mInternalDimensions = [1, 2, 3],
      mMetric2ConditionLinks = [], mMetric2StateLinks = [], mSlicedStateAtoms = [],
      mHasLinksToAllConditionDimensionsInTracker = False, mDimensionHardLimit = 2,
      mHasHitGuardrail = False, mUploadThreshold = None,
      mCurrentSlicedDurationTrackerMap = [([1], [True])], mPastBuckets = 0,
      mConditionTimer = (), statsdStats = []\<rparr>"

definition two_key_producer ::
  "(int, int, bool list, unit, nat, unit) DurationMetricProducer" where
  "two_key_producer =
     one_key_producer\<lparr>mCurrentSlicedDurationTrackerMap := [([1], [True]), ([2], [True])]\<rparr>"




section \<open>AnomalyTracker\<close>

text \<open>
  \<open>DimToValMap\<close> is an \<open>unordered_map\<close> from \<open>MetricDimensionKey\<close> to \<open>int64_t\<close>; the
  class comment says that it does not allow negative values. A slot of \<open>mPastBuckets\<close>
  is a \<open>shared_ptr\<close> that may be null. The model keeps the buckets by value and the
  values as \<open>int\<close>. The alert's threshold is read through \<open>getAnomalyThreshold\<close>, an
  \<open>int64_t\<close>. \<open>mFired\<close> lists the subscriptions fired, with the key, metric id and
  value they were told.
\<close>

type_synonym 'k DimToValMap = "'k \<rightharpoonup> int"

record ('k, 'sub) AnomalyTracker =
  trigger_if_sum_gt :: int
  refractory_period_secs :: int
  mSubscriptions :: "'sub list"
  mNumOfPastBuckets :: int
  mPastBuckets :: "'k DimToValMap option list"
  mSumOverPastBuckets :: "'k DimToValMap"
  mMostRecentBucketNum :: int
  mRefractoryPeriodEndsSec :: "'k \<rightharpoonup> nat"
  mFired :: "('sub \<times> 'k \<times> int \<times> int) list"

definition NS_PER_SEC :: int where
  "NS_PER_SEC = 1000000000"

text \<open>The inline members of the header.\<close>

definition addSubscription :: "'sub \<Rightarrow> ('k, 'sub) AnomalyTracker \<Rightarrow> ('k, 'sub) AnomalyTracker" where
  "addSubscription subscription t = t\<lparr>mSubscriptions := mSubscriptions t @ [subscription]\<rparr>"

definition getAnomalyThreshold :: "('k, 'sub) AnomalyTracker \<Rightarrow> int" where
  "getAnomalyThreshold t = trigger_if_sum_gt t"

definition getRefractoryPeriodEndsSec :: "('k, 'sub) AnomalyTracker \<Rightarrow> 'k \<Rightarrow> nat" where
  "getRefractoryPeriodEndsSec t key =
     (case mRefractoryPeriodEndsSec t key of Some ends \<Rightarrow> ends | None \<Rightarrow> 0)"

definition getNumOfPastBuckets :: "('k, 'sub) AnomalyTracker \<Rightarrow> int" where
  "getNumOfPastBuckets t = mNumOfPastBuckets t"

text \<open>
  Modelled from the spec: the constructor of \<open>AnomalyTracker\<close> (in AnomalyTracker.cpp,
  not among the sources). The header gives the initial members: \<open>mPastBuckets\<close> is
  always of size \<open>mNumOfPastBuckets\<close>, a null slot holds no data,
  \<open>mMostRecentBucketNum\<close> starts at -1, and nothing else is stored yet.
\<close>

definition newAnomalyTracker :: "int \<Rightarrow> int \<Rightarrow> int \<Rightarrow> ('k, 'sub) AnomalyTracker" where
  "newAnomalyTracker threshold refractory numOfPastBuckets =
     \<lparr>trigger_if_sum_gt = threshold, refractory_period_secs = refractory,
      mSubscriptions = [], mNumOfPastBuckets = numOfPastBuckets,
      mPastBuckets = replicate (nat numOfPastBuckets) None,
      mSumOverPastBuckets = Map.empty, mMostRecentBucketNum = -1,
      mRefractoryPeriodEndsSec = Map.empty, mFired = []\<rparr>"

text \<open>
  Modelled from the spec: \<open>AnomalyTracker::index\<close> (AnomalyTracker.cpp). The ring is
  indexed by bucketNum mod N; the header requires \<open>bucketNum >= 0\<close>.
\<close>

definition index :: "('k, 'sub) AnomalyTracker \<Rightarrow> int \<Rightarrow> nat" where
  "index t bucketNum = nat (bucketNum mod mNumOfPastBuckets t)"

text \<open>
  Modelled from the spec: \<open>AnomalyTracker::subtractValueFromSum\<close> (AnomalyTracker.cpp):
  from \<open>mSumOverPastBuckets[key]\<close>, subtracts \<open>bucketValue\<close>, removing the entry if it
  is now 0. A key with no entry has nothing to subtract from.
\<close>

definition subtractValueFromSum :: "'k \<Rightarrow> int \<Rightarrow> 'k DimToValMap \<Rightarrow> 'k DimToValMap" where
  "subtractValueFromSum key bucketValue sums =
     (case sums key of
        None \<Rightarrow> sums
      | Some s \<Rightarrow> if s - bucketValue = 0 then sums(key := None)
                  else sums(key \<mapsto> s - bucketValue))"

text \<open>
  Modelled from the spec: \<open>AnomalyTracker::subtractBucketFromSum\<close> (AnomalyTracker.cpp):
  subtract the information in the given bucket from \<open>mSumOverPastBuckets\<close> and remove
  any items with value 0. The keys of a bucket are distinct, so the loop over its
  entries is the same update at every key; a null bucket holds nothing.
\<close>

definition subtractBucketFromSum ::
  "'k DimToValMap option \<Rightarrow> 'k DimToValMap \<Rightarrow> 'k DimToValMap" where
  "subtractBucketFromSum bucket sums =
     (case bucket of
        None \<Rightarrow> sums
      | Some b \<Rightarrow> (\<lambda>key. case b key of
                            None \<Rightarrow> sums key
                          | Some v \<Rightarrow> subtractValueFromSum key v sums key))"

text \<open>
  Modelled from the spec: \<open>AnomalyTracker::addBucketToSum\<close> (AnomalyTracker.cpp): add the
  information in the given bucket to \<open>mSumOverPastBuckets\<close>; a key with no entry yet
  starts from 0. The header says of \<open>mSumOverPastBuckets\<close> that it never contains
  entries of 0, and of the subtraction that it removes an entry that is now 0: a sum
  that is 0 after the addition is not kept either.
\<close>

definition addBucketToSum ::
  "'k DimToValMap option \<Rightarrow> 'k DimToValMap \<Rightarrow> 'k DimToValMap" where
  "addBucketToSum bucket sums =
     (case bucket of
        None \<Rightarrow> sums
      | Some b \<Rightarrow> (\<lambda>key. case b key of
                            None \<Rightarrow> sums key
                          | Some v \<Rightarrow>
                              (let total = (case sums key of None \<Rightarrow> 0 | Some s \<Rightarrow> s) + v
                               in if total = 0 then None else Some total)))"

text \<open>
  Modelled from the spec: the removal of one bucket that is now too old, the step of
  \<open>advanceMostRecentBucketTo\<close>: its contribution is subtracted from the per-key sums and
  its slot is emptied. A bucket number that has no slot holds no data.
\<close>

definition removeBucket :: "int \<Rightarrow> ('k, 'sub) AnomalyTracker \<Rightarrow> ('k, 'sub) AnomalyTracker" where
  "removeBucket bucketNum t =
     (if index t bucketNum < length (mPastBuckets t) then
        t\<lparr>mPastBuckets := (mPastBuckets t)[index t bucketNum := None],
          mSumOverPastBuckets :=
            subtractBucketFromSum (mPastBuckets t ! index t bucketNum) (mSumOverPastBuckets t)\<rparr>
      else t)"

text \<open>
  Modelled from the spec: \<open>AnomalyTracker::advanceMostRecentBucketTo\<close>
  (AnomalyTracker.cpp): advances \<open>mMostRecentBucketNum\<close> to \<open>bucketNum\<close>, deleting any
  data that is now too old; specifically it removes the data for the bucket numbers
  \<open>[mMostRecentBucketNum - mNumOfPastBuckets + 1, bucketNum - mNumOfPastBuckets]\<close>.
  Bucket numbers start at 0, and a bucket number in the past advances nothing.
\<close>

definition advanceMostRecentBucketTo ::
  "int \<Rightarrow> ('k, 'sub) AnomalyTracker \<Rightarrow> ('k, 'sub) AnomalyTracker" where
  "advanceMostRecentBucketTo bucketNum t =
     (if bucketNum \<le> mMostRecentBucketNum t then t
      else (fold removeBucket
              [max 0 (mMostRecentBucketNum t - mNumOfPastBuckets t + 1) ..
                 bucketNum - mNumOfPastBuckets t] t)
           \<lparr>mMostRecentBucketNum := bucketNum\<rparr>)"

text \<open>
  Modelled from the spec: \<open>AnomalyTracker::addPastBucket(bucket, bucketNum)\<close>
  (AnomalyTracker.cpp): adds a bucket for the given \<open>bucketNum\<close> (index starting at 0);
  if a bucket for \<open>bucketNum\<close> already exists, it is replaced; also advances to
  \<open>bucketNum\<close> (if not in the past). A tracker with no past buckets stores nothing, a
  bucket number that is already too old is dropped, and what the slot of \<open>bucketNum\<close>
  held leaves the sums before the new bucket enters them.
\<close>

definition addPastBucket ::
  "'k DimToValMap option \<Rightarrow> int \<Rightarrow> ('k, 'sub) AnomalyTracker \<Rightarrow> ('k, 'sub) AnomalyTracker" where
  "addPastBucket bucket bucketNum t =
     (if mNumOfPastBuckets t \<le> 0 \<or> bucketNum < 0 \<or>
         bucketNum \<le> mMostRecentBucketNum t - mNumOfPastBuckets t then t
      else
        let t1 = removeBucket bucketNum
                   (if bucketNum \<le> mMostRecentBucketNum t then t
                    else advanceMostRecentBucketTo bucketNum t)
        in if index t1 bucketNum < length (mPastBuckets t1) then
             t1\<lparr>mPastBuckets := (mPastBuckets t1)[index t1 bucketNum := bucket],
                mSumOverPastBuckets := addBucketToSum bucket (mSumOverPastBuckets t1)\<rparr>
           else t1)"

text \<open>
  Modelled from the spec: \<open>AnomalyTracker::addPastBucket(key, bucketValue, bucketNum)\<close>
  (AnomalyTracker.cpp): inserts (or replaces) the bucket entry for the given
  \<open>bucketNum\<close> at the given key to be the given \<open>bucketValue\<close>; if the bucket does not
  exist, it is created; also advances to \<open>bucketNum\<close> (if not in the past).
\<close>

definition addPastBucketValue ::
  "'k \<Rightarrow> int \<Rightarrow> int \<Rightarrow> ('k, 'sub) AnomalyTracker \<Rightarrow> ('k, 'sub) AnomalyTracker" where
  "addPastBucketValue key bucketValue bucketNum t =
     (if mNumOfPastBuckets t \<le> 0 \<or> bucketNum < 0 \<or>
         bucketNum \<le> mMostRecentBucketNum t - mNumOfPastBuckets t then t
      else if bucketNum \<le> mMostRecentBucketNum t \<and>
              index t bucketNum < length (mPastBuckets t) \<and>
              mPastBuckets t ! index t bucketNum \<noteq> None then
        (case mPastBuckets t ! index t bucketNum of
           None \<Rightarrow> t
         | Some b \<Rightarrow>
             t\<lparr>mPastBuckets := (mPastBuckets t)[index t bucketNum := Some (b(key \<mapsto> bucketValue))],
               mSumOverPastBuckets :=
                 addBucketToSum (Some [key \<mapsto> bucketValue])
                   (case b key of
                      None \<Rightarrow> mSumOverPastBuckets t
                    | Some old \<Rightarrow> subtractValueFromSum key old (mSumOverPastBuckets t))\<rparr>)
      else addPastBucket (Some [key \<mapsto> bucketValue]) bucketNum t)"

text \<open>
  Modelled from the spec: \<open>AnomalyTracker::getSumOverPastBuckets\<close> (AnomalyTracker.cpp):
  returns the sum of all past bucket values for the given dimension key, which the
  tracker keeps in \<open>mSumOverPastBuckets\<close>, the cached sum over all existing buckets.
\<close>

definition getSumOverPastBuckets :: "('k, 'sub) AnomalyTracker \<Rightarrow> 'k \<Rightarrow> int" where
  "getSumOverPastBuckets t key =
     (case mSumOverPastBuckets t key of Some s \<Rightarrow> s | None \<Rightarrow> 0)"

text \<open>The sum computed by scanning the buckets of the ring: a null slot and a bucket
  without the key count 0.\<close>

definition pastBucketValue :: "'k DimToValMap option \<Rightarrow> 'k \<Rightarrow> int" where
  "pastBucketValue slot key =
     (case slot of None \<Rightarrow> 0 | Some b \<Rightarrow> (case b key of None \<Rightarrow> 0 | Some v \<Rightarrow> v))"

definition scanPastBuckets :: "('k, 'sub) AnomalyTracker \<Rightarrow> 'k \<Rightarrow> int" where
  "scanPastBuckets t key = sum_list (map (\<lambda>slot. pastBucketValue slot key) (mPastBuckets t))"

text \<open>
  Modelled from the spec: \<open>AnomalyTracker::isInRefractoryPeriod\<close> (AnomalyTracker.cpp):
  true if in the refractory period. The header's \<open>getRefractoryPeriodEndsSec\<close> gives the
  moment, in seconds, before which a detected anomaly is ignored and from which on
  anomalies can be declared again.
\<close>

definition isInRefractoryPeriod :: "int \<Rightarrow> 'k \<Rightarrow> ('k, 'sub) AnomalyTracker \<Rightarrow> bool" where
  "isInRefractoryPeriod timestampNs key t =
     (timestampNs < int (getRefractoryPeriodEndsSec t key) * NS_PER_SEC)"

text \<open>
  Modelled from the spec: \<open>AnomalyTracker::detectAnomaly\<close> (AnomalyTracker.cpp): advances
  to \<open>currBucketNum - 1\<close> and answers whether the sum over the past buckets for the key
  plus the value of the current bucket is greater than the threshold.
\<close>

definition detectAnomaly ::
  "int \<Rightarrow> 'k \<Rightarrow> int \<Rightarrow> ('k, 'sub) AnomalyTracker \<Rightarrow> bool \<times> ('k, 'sub) AnomalyTracker" where
  "detectAnomaly currBucketNum key currentBucketValue t =
     (let t1 = advanceMostRecentBucketTo (currBucketNum - 1) t
      in (getSumOverPastBuckets t1 key + currentBucketValue > getAnomalyThreshold t1, t1))"

text \<open>
  Modelled from the spec: \<open>AnomalyTracker::informSubscribers\<close> (AnomalyTracker.cpp): each
  registered subscription is fired.
\<close>

definition informSubscribers ::
  "'k \<Rightarrow> int \<Rightarrow> int \<Rightarrow> ('k, 'sub) AnomalyTracker \<Rightarrow> ('k, 'sub) AnomalyTracker" where
  "informSubscribers key metricId metricValue t =
     t\<lparr>mFired := mFired t @
          map (\<lambda>subscription. (subscription, key, metricId, metricValue)) (mSubscriptions t)\<rparr>"

text \<open>
  Modelled from the spec: the end of the refractory window recorded at a declaration,
  in seconds stored as \<open>uint32_t\<close>: the alert's refractory period after the second the
  event falls in (an event at 10 s with a period of 30 s gives 40 s). The spec does
  not say how a time between two seconds is rounded; the model rounds up.
\<close>

definition refractoryPeriodEnd :: "int \<Rightarrow> ('k, 'sub) AnomalyTracker \<Rightarrow> nat" where
  "refractoryPeriodEnd timestampNs t =
     nat (((timestampNs + NS_PER_SEC - 1) div NS_PER_SEC + refractory_period_secs t) mod 2 ^ 32)"

text \<open>
  Modelled from the spec: \<open>AnomalyTracker::declareAnomaly\<close> (AnomalyTracker.cpp): nothing
  is declared for a key in its refractory period; on declaration, the refractory
  window end is recorded for the key and the subscribers are informed.
\<close>

definition declareAnomaly ::
  "int \<Rightarrow> int \<Rightarrow> 'k \<Rightarrow> int \<Rightarrow> ('k, 'sub) AnomalyTracker \<Rightarrow> ('k, 'sub) AnomalyTracker" where
  "declareAnomaly timestampNs metricId key metricValue t =
     (if isInRefractoryPeriod timestampNs key t then t
      else informSubscribers key metricId metricValue
             (t\<lparr>mRefractoryPeriodEndsSec :=
                   (mRefractoryPeriodEndsSec t)(key \<mapsto> refractoryPeriodEnd timestampNs t)\<rparr>))"

text \<open>
  Modelled from the spec: \<open>AnomalyTracker::detectAndDeclareAnomaly\<close>
  (AnomalyTracker.cpp): detects if, based on past buckets plus the new
  \<open>currentBucketValue\<close>, an anomaly has happened, and if so, declares it.
\<close>

definition detectAndDeclareAnomaly ::
  "int \<Rightarrow> int \<Rightarrow> int \<Rightarrow> 'k \<Rightarrow> int \<Rightarrow> ('k, 'sub) AnomalyTracker \<Rightarrow> ('k, 'sub) AnomalyTracker" where
  "detectAndDeclareAnomaly timestampNs currBucketNum metricId key currentBucketValue t =
     (case detectAnomaly currBucketNum key currentBucketValue t of
        (detected, t1) \<Rightarrow>
          if detected then declareAnomaly timestampNs metricId key currentBucketValue t1
          else t1)"

text \<open>A call of one of the two \<open>addPastBucket\<close> overloads, and a sequence of them.\<close>

datatype 'k past_bucket_call =
    AddBucket "'k DimToValMap option" int
  | AddValue 'k int int

fun applyCall :: "'k past_bucket_call \<Rightarrow> ('k, 'sub) AnomalyTracker \<Rightarrow> ('k, 'sub) AnomalyTracker" where
  "applyCall (AddBucket bucket bucketNum) t = addPastBucket bucket bucketNum t"
| "applyCall (AddValue key bucketValue bucketNum) t = addPastBucketValue key bucketValue bucketNum t"

definition applyCalls ::
  "'k past_bucket_call list \<Rightarrow> ('k, 'sub) AnomalyTracker \<Rightarrow> ('k, 'sub) AnomalyTracker" where
  "applyCalls calls t = fold applyCall calls t"

text \<open>A bucket, or a null slot, whose values are all at least \<open>low\<close>.\<close>

definition valuesFrom :: "int \<Rightarrow> 'k DimToValMap option \<Rightarrow> bool" where
  "valuesFrom low slot = (case slot of None \<Rightarrow> True | Some b \<Rightarrow> (\<forall>v \<in> ran b. low \<le> v))"

text \<open>The class does not allow negative values: the values a call may carry.\<close>

fun callValuesFrom :: "int \<Rightarrow> 'k past_bucket_call \<Rightarrow> bool" where
  "callValuesFrom low (AddBucket bucket bucketNum) = valuesFrom low bucket"
| "callValuesFrom low (AddValue key bucketValue bucketNum) = (low \<le> bucketValue)"


text \<open>What the tracker keeps between calls: no stored value is negative, and the
  cached sum of every key is the sum found by scanning the ring.\<close>

definition pastBucketsConsistent :: "('k, 'sub) AnomalyTracker \<Rightarrow> bool" where
  "pastBucketsConsistent t =
     ((\<forall>slot \<in> set (mPastBuckets t). valuesFrom 0 slot) \<and>
      (\<forall>key. getSumOverPastBuckets t key = scanPastBuckets t key))"



text \<open>The value a per-key sum map holds for a key, 0 for a key without an entry.\<close>

definition cached :: "'k DimToValMap \<Rightarrow> 'k \<Rightarrow> int" where
  "cached sums key = (case sums key of Some s \<Rightarrow> s | None \<Rightarrow> 0)"

text \<open>A tracker with threshold 5, a refractory period of 30 s, two past buckets and one
  subscription, after the values 3 and 2 of one key entered buckets 0 and 1.\<close>

definition two_bucket_tracker :: "(string, string) AnomalyTracker" where
  "two_bucket_tracker =
     applyCalls [AddValue ''uid_1001'' 3 0, AddValue ''uid_1001'' 2 1]
       (addSubscription ''incidentd'' (newAnomalyTracker 5 30 2))"

section \<open>Dimension keys and the field filter\<close>

text \<open>
  Modelled from the spec: \<open>Field\<close> and \<open>FieldValue\<close> (FieldValue.h, not among the
  sources). A field value is a scalar that carries a field path: the root tag, the
  packed address of the ancestors, and a leaf position made of an index and a flag
  that says that the positional identity is irrelevant. The scalar is a type
  parameter, compared by its own equality.
\<close>

record Field =
  rootTag :: int
  ancestors :: "int list"
  leafIndex :: nat
  positionIrrelevant :: bool

record 'v FieldValue =
  mField :: Field
  mValue :: 'v

text \<open>
  Modelled from the spec: the position after masking, which equality and hashing use:
  under the flag the index does not count.
\<close>

definition maskedField :: "Field \<Rightarrow> Field" where
  "maskedField f = (if positionIrrelevant f then f\<lparr>leafIndex := 0\<rparr> else f)"

definition maskedValue :: "'v FieldValue \<Rightarrow> 'v FieldValue" where
  "maskedValue fv = fv\<lparr>mField := maskedField (mField fv)\<rparr>"

text \<open>
  Modelled from the spec: \<open>FieldValue::operator==\<close> (FieldValue.h): two values are
  equal when their fields are equal after position masking and their scalars are equal.
\<close>

definition fieldValueEq :: "'v FieldValue \<Rightarrow> 'v FieldValue \<Rightarrow> bool" where
  "fieldValueEq a b = (maskedField (mField a) = maskedField (mField b) \<and> mValue a = mValue b)"

text \<open>
  Modelled from the spec: \<open>HashableDimensionKey::operator==\<close> (HashableDimensionKey.cpp,
  not among the sources): a dimension key is an ordered sequence of field values, and
  two keys are equal when they have the same length and equal values at every index.
\<close>

fun keyEq :: "'v FieldValue list \<Rightarrow> 'v FieldValue list \<Rightarrow> bool" where
  "keyEq [] [] = True"
| "keyEq (a # as) (b # bs) = (if fieldValueEq a b then keyEq as bs else False)"
| "keyEq [] (b # bs) = False"
| "keyEq (a # as) [] = False"

text \<open>
  The hash functions of the platform library (\<open>JenkinsHashMix\<close>, \<open>JenkinsHashWhiten\<close>,
  \<open>hash_type\<close>) are parameters, over any type \<open>'h\<close> of hash values with its start value.
\<close>

record ('v, 'h) hash_env =
  JenkinsHashMix :: "'h \<Rightarrow> 'h \<Rightarrow> 'h"
  JenkinsHashWhiten :: "'h \<Rightarrow> 'h"
  hash_field :: "Field \<Rightarrow> 'h"
  hash_scalar :: "'v \<Rightarrow> 'h"
  hash_zero :: 'h

text \<open>
  Modelled from the spec: \<open>hashDimension\<close> (HashableDimensionKey.cpp): the hash of a
  key mixes, value by value, the field after position masking and the scalar, and
  whitens the result.
\<close>

definition hashDimension :: "('v, 'h) hash_env \<Rightarrow> 'v FieldValue list \<Rightarrow> 'h" where
  "hashDimension env key =
     JenkinsHashWhiten env
       (fold (\<lambda>fieldValue hash.
                JenkinsHashMix env
                  (JenkinsHashMix env hash (hash_field env (maskedField (mField fieldValue))))
                  (hash_scalar env (mValue fieldValue)))
             key (hash_zero env))"

text \<open>\<open>std::hash<HashableDimensionKey>\<close> and \<open>std::hash<MetricDimensionKey>\<close>, as the
  header defines them.\<close>

definition hash_HashableDimensionKey :: "('v, 'h) hash_env \<Rightarrow> 'v FieldValue list \<Rightarrow> 'h" where
  "hash_HashableDimensionKey env key = hashDimension env key"

definition hash_MetricDimensionKey ::
  "('v, 'h) hash_env \<Rightarrow> 'v FieldValue list \<times> 'v FieldValue list \<Rightarrow> 'h" where
  "hash_MetricDimensionKey env key =
     JenkinsHashWhiten env
       (JenkinsHashMix env (hashDimension env (fst key)) (hashDimension env (snd key)))"

text \<open>
  Modelled from the spec: \<open>Matcher\<close> (FieldValue.h): a root tag, a field path and a
  position selector. The leaf index of the path counts for \<open>EXACT\<close> only.
\<close>

datatype Position = Position_EXACT | Position_FIRST | Position_LAST | Position_ANY
  | Position_ALL

record Matcher =
  matcherTag :: int
  matcherPath :: "int list"
  matcherLeafIndex :: nat
  position :: Position

text \<open>
  Modelled from the spec: an occurrence of the matcher's field at any position, and the
  value at the matcher's exact field path. A value whose position is flagged has no
  exact position any more.
\<close>

definition sameField :: "Matcher \<Rightarrow> 'v FieldValue \<Rightarrow> bool" where
  "sameField m fv =
     (rootTag (mField fv) = matcherTag m \<and> ancestors (mField fv) = matcherPath m)"

definition exactField :: "Matcher \<Rightarrow> 'v FieldValue \<Rightarrow> bool" where
  "exactField m fv =
     (sameField m fv \<and> leafIndex (mField fv) = matcherLeafIndex m \<and>
      \<not> positionIrrelevant (mField fv))"

text \<open>
  Modelled from the spec: the copy of a value with its position bit masked: the
  original position is removed from the dimension key.
\<close>

definition maskPosition :: "'v FieldValue \<Rightarrow> 'v FieldValue" where
  "maskPosition fv = fv\<lparr>mField := (mField fv)\<lparr>leafIndex := 0, positionIrrelevant := True\<rparr>\<rparr>"

text \<open>
  Modelled from the spec: what one matcher contributes to the key (spec 4.1).
  \<open>EXACT\<close>: the value at the exact field path if present, otherwise the matcher fails.
  \<open>FIRST\<close>, \<open>LAST\<close>, \<open>ANY\<close>: the first, the last, or an occurrence (the model takes the
  first) of the field at any position, copied with its position bit masked.
  \<open>ALL\<close>: every matching occurrence, each with its position bit masked; a field that
  does not occur fails the matcher.
\<close>

definition filterMatcher :: "Matcher \<Rightarrow> 'v FieldValue list \<Rightarrow> 'v FieldValue list option" where
  "filterMatcher m values =
     (case position m of
        Position_EXACT \<Rightarrow> (case find (exactField m) values of
                    None \<Rightarrow> None
                  | Some fv \<Rightarrow> Some [fv])
      | Position_FIRST \<Rightarrow> (case find (sameField m) values of
                    None \<Rightarrow> None
                  | Some fv \<Rightarrow> Some [maskPosition fv])
      | Position_LAST \<Rightarrow> (case find (sameField m) (rev values) of
                   None \<Rightarrow> None
                 | Some fv \<Rightarrow> Some [maskPosition fv])
      | Position_ANY \<Rightarrow> (case find (sameField m) values of
                  None \<Rightarrow> None
                | Some fv \<Rightarrow> Some [maskPosition fv])
      | Position_ALL \<Rightarrow> (if filter (sameField m) values = [] then None
                else Some (map maskPosition (filter (sameField m) values))))"

text \<open>
  Modelled from the spec: \<open>filterValues(matcherFields, values, output)\<close>
  (HashableDimensionKey.cpp): the key is built by walking the matcher list in order;
  the filter fails as a unit, a partial match produces no key (\<open>None\<close>).
\<close>

fun filterKey :: "Matcher list \<Rightarrow> 'v FieldValue list \<Rightarrow> 'v FieldValue list option" where
  "filterKey [] values = Some []"
| "filterKey (m # ms) values =
     (case filterMatcher m values of
        None \<Rightarrow> None
      | Some out \<Rightarrow> (case filterKey ms values of
                       None \<Rightarrow> None
                     | Some rest \<Rightarrow> Some (out @ rest)))"

text \<open>The field a matcher selects, and matcher lists that select pairwise different
  fields.\<close>

definition matcherField :: "Matcher \<Rightarrow> int \<times> int list" where
  "matcherField m = (matcherTag m, matcherPath m)"

definition distinctFields :: "Matcher list \<Rightarrow> bool" where
  "distinctFields ms = distinct (map matcherField ms)"

text \<open>A uid field of an attribution chain, its matchers, and two atoms that carry uid
  1000 last, at positions 5 and 6.\<close>

definition uidAt :: "nat \<Rightarrow> int \<Rightarrow> int FieldValue" where
  "uidAt i uid =
     \<lparr>mField = \<lparr>rootTag = 10, ancestors = [1, 1], leafIndex = i, positionIrrelevant = False\<rparr>,
      mValue = uid\<rparr>"

definition uidMatcher :: "Position \<Rightarrow> Matcher" where
  "uidMatcher p = \<lparr>matcherTag = 10, matcherPath = [1, 1], matcherLeafIndex = 1, position = p\<rparr>"

text \<open>A wake lock tag beside the attribution chain, its matcher, and an instance of the
  hash functions on integers.\<close>

definition tagValue :: "int \<Rightarrow> int FieldValue" where
  "tagValue v =
     \<lparr>mField = \<lparr>rootTag = 10, ancestors = [2], leafIndex = 1, positionIrrelevant = False\<rparr>,
      mValue = v\<rparr>"

definition tagMatcher :: Matcher where
  "tagMatcher = \<lparr>matcherTag = 10, matcherPath = [2], matcherLeafIndex = 1, position = Position_EXACT\<rparr>"

definition sum_hash_env :: "(int, int) hash_env" where
  "sum_hash_env =
     \<lparr>JenkinsHashMix = (\<lambda>hash data. (hash * 1025 + data) mod 2 ^ 32),
      JenkinsHashWhiten = (\<lambda>hash. (hash * 9) mod 2 ^ 32),
      hash_field = (\<lambda>f. rootTag f + sum_list (ancestors f) + int (leafIndex f)),
      hash_scalar = (\<lambda>v. v),
      hash_zero = 0\<rparr>"


section \<open>Properties\<close>

subsection \<open>Association lists and frames\<close>

lemma update_absent: "map_of al k = None \<Longrightarrow> AList.update k v al = al @ [(k, v)]"
  by (induction al) (auto split: if_splits)

lemma map_entry_absent_snoc:
  "map_of al k = None \<Longrightarrow> AList.map_entry k f (al @ [(k, v)]) = al @ [(k, f v)]"
  by (induction al) (auto split: if_splits)

lemma narrow_int64_id: "- (2 ^ 63) \<le> x \<Longrightarrow> x < 2 ^ 63 \<Longrightarrow> narrow_int64 x = x"
  by (simp add: narrow_int64_def)

lemma flushCurrentBucketLocked_eq:
  "flushCurrentBucketLocked env t next s =
     s\<lparr>mConditionTimer := snd (newBucketStart env t next (mConditionTimer s)),
       mCurrentSlicedDurationTrackerMap :=
         fst (flushTrackers env t (mUploadThreshold s)
                (fst (fst (newBucketStart env t next (mConditionTimer s))))
                (mCurrentSlicedDurationTrackerMap s) (DurationMetricProducer.mPastBuckets s)),
       DurationMetricProducer.mPastBuckets :=
         snd (flushTrackers env t (mUploadThreshold s)
                (fst (fst (newBucketStart env t next (mConditionTimer s))))
                (mCurrentSlicedDurationTrackerMap s) (DurationMetricProducer.mPastBuckets s)),
       statsdStats := statsdStats s @ [noteBucketCount (mMetricId s)],
       mCurrentBucketStartTimeNs := next,
       mHasHitGuardrail := False\<rparr>"
  by (simp add: flushCurrentBucketLocked_def split: prod.splits)


lemma flushIfNeededLocked_mCondition:
  "flushIfNeededLocked env t (s\<lparr>mCondition := c\<rparr>) =
     map_option (\<lambda>s'. s'\<lparr>mCondition := c\<rparr>) (flushIfNeededLocked env t s)"
  by (simp add: flushIfNeededLocked_def flushCurrentBucketLocked_def
        getCurrentBucketEndTimeNs_def Let_def split: prod.splits)

lemma flushIfNeededLocked_frame:
  "flushIfNeededLocked env t s = Some s1 \<Longrightarrow>
   mIsActive s1 = mIsActive s \<and>
   mCondition s1 = mCondition s \<and>
   mConditionSliced s1 = mConditionSliced s \<and>
   mStopIndex s1 = mStopIndex s \<and>
   mStopAllIndex s1 = mStopAllIndex s \<and>
   mDimensionsInWhat s1 = mDimensionsInWhat s \<and>
   mMetric2StateLinks s1 = mMetric2StateLinks s \<and>
   mSlicedStateAtoms s1 = mSlicedStateAtoms s \<and>
   mTimeBaseNs s1 = mTimeBaseNs s \<and>
   mBucketSizeNs s1 = mBucketSizeNs s"
  by (auto simp add: flushIfNeededLocked_def flushCurrentBucketLocked_def
        Let_def split: prod.splits if_splits)




lemma flushed_if_active_frame:
  assumes "(if mIsActive s then flushIfNeededLocked env t s else Some s) = Some s1"
  shows "mIsActive s1 = mIsActive s \<and>
   mCondition s1 = mCondition s \<and>
   mConditionSliced s1 = mConditionSliced s \<and>
   mStopIndex s1 = mStopIndex s \<and>
   mStopAllIndex s1 = mStopAllIndex s \<and>
   mDimensionsInWhat s1 = mDimensionsInWhat s \<and>
   mMetric2StateLinks s1 = mMetric2StateLinks s \<and>
   mSlicedStateAtoms s1 = mSlicedStateAtoms s"
proof (cases "mIsActive s")
  case True
  with assms have "flushIfNeededLocked env t s = Some s1" by simp
  from flushIfNeededLocked_frame [OF this] show ?thesis by simp
next
  case False
  with assms have "s1 = s" by simp
  then show ?thesis by simp
qed

lemma hitGuardRailLocked_mCondition:
  "hitGuardRailLocked env k (s\<lparr>mCondition := c\<rparr>) =
     (fst (hitGuardRailLocked env k s), (snd (hitGuardRailLocked env k s))\<lparr>mCondition := c\<rparr>)"
  by (simp add: hitGuardRailLocked_def Let_def)

lemma hitGuardRailLocked_map:
  "mCurrentSlicedDurationTrackerMap (snd (hitGuardRailLocked env k s)) =
     mCurrentSlicedDurationTrackerMap s"
  by (simp add: hitGuardRailLocked_def Let_def)

lemma createDurationTracker_mCondition:
  "createDurationTracker env k (s\<lparr>mCondition := c\<rparr>) = createDurationTracker env k s"
  by (simp add: createDurationTracker_def)

lemma handleStartEvent_mCondition:
  "handleStartEvent env k ck b t vs (s\<lparr>mCondition := c\<rparr>) =
     (handleStartEvent env k ck b t vs s)\<lparr>mCondition := c\<rparr>"
  by (simp add: handleStartEvent_def hitGuardRailLocked_mCondition
        createDurationTracker_mCondition Let_def hitGuardRailLocked_map)


subsection \<open>Dimension guardrail\<close>

text \<open>
  C5. A start event whose what-key has no tracker yet, on a producer whose hard limit is
  not below the soft limit of \<open>StatsdStats\<close> (the order the names promise; both
  constants are declared outside the modelled file). If one more key exceeds the hard
  limit, \<open>handleStartEvent\<close> returns with the tracker map as it was, having reported the
  tuple count and the hard-limit hit to \<open>StatsdStats\<close> and set \<open>mHasHitGuardrail\<close>;
  nothing else changes. If the map holds at least the soft limit of keys and one more
  does not exceed the hard limit, only the tuple count is reported and the key gets a
  new tracker, on which the start is noted.
\<close>

theorem handleStartEvent_guardrail:
  assumes absent:
      "map_of (mCurrentSlicedDurationTrackerMap s) (getDimensionKeyInWhat eventKey) = None"
    and order: "kDimensionKeySizeSoftLimit env \<le> mDimensionHardLimit s"
  shows "(mDimensionHardLimit s < length (mCurrentSlicedDurationTrackerMap s) + 1 \<longrightarrow>
            handleStartEvent env eventKey conditionKeys condition eventTimeNs eventValues s =
              s\<lparr>mHasHitGuardrail := True,
                statsdStats := statsdStats s @
                  [noteMetricDimensionSize (mConfigKey s) (mMetricId s)
                     (length (mCurrentSlicedDurationTrackerMap s) + 1),
                   noteHardDimensionLimitReached (mMetricId s)]\<rparr>) \<and>
         (kDimensionKeySizeSoftLimit env \<le> length (mCurrentSlicedDurationTrackerMap s) \<and>
          length (mCurrentSlicedDurationTrackerMap s) + 1 \<le> mDimensionHardLimit s \<longrightarrow>
            statsdStats
                (handleStartEvent env eventKey conditionKeys condition eventTimeNs eventValues s) =
              statsdStats s @
                [noteMetricDimensionSize (mConfigKey s) (mMetricId s)
                   (length (mCurrentSlicedDurationTrackerMap s) + 1)] \<and>
            mCurrentSlicedDurationTrackerMap
                (handleStartEvent env eventKey conditionKeys condition eventTimeNs eventValues s) =
              mCurrentSlicedDurationTrackerMap s @
                [(getDimensionKeyInWhat eventKey,
                  noteStart env
                    (if mUseWhatDimensionAsInternalDimension s then getDimensionKeyInWhat eventKey
                     else if mInternalDimensions s = [] then DEFAULT_DIMENSION_KEY
                     else filterValues env (mInternalDimensions s) eventValues
                            DEFAULT_DIMENSION_KEY)
                    condition eventTimeNs conditionKeys (mDimensionHardLimit s)
                    (createDurationTracker env eventKey s))])"
proof (intro conjI impI)
  assume hard: "mDimensionHardLimit s < length (mCurrentSlicedDurationTrackerMap s) + 1"
  with order
  have soft: "kDimensionKeySizeSoftLimit env \<le> length (mCurrentSlicedDurationTrackerMap s)"
    by simp
  show "handleStartEvent env eventKey conditionKeys condition eventTimeNs eventValues s =
              s\<lparr>mHasHitGuardrail := True,
                statsdStats := statsdStats s @
                  [noteMetricDimensionSize (mConfigKey s) (mMetricId s)
                     (length (mCurrentSlicedDurationTrackerMap s) + 1),
                   noteHardDimensionLimitReached (mMetricId s)]\<rparr>"
    using absent hard soft
    by (simp add: handleStartEvent_def hitGuardRailLocked_def Let_def)
next
  assume room: "kDimensionKeySizeSoftLimit env \<le> length (mCurrentSlicedDurationTrackerMap s) \<and>
          length (mCurrentSlicedDurationTrackerMap s) + 1 \<le> mDimensionHardLimit s"
  then have guard: "hitGuardRailLocked env eventKey s =
     (False, s\<lparr>statsdStats := statsdStats s @
         [noteMetricDimensionSize (mConfigKey s) (mMetricId s)
            (length (mCurrentSlicedDurationTrackerMap s) + 1)]\<rparr>)"
    using absent by (simp add: hitGuardRailLocked_def Let_def)
  show "statsdStats
          (handleStartEvent env eventKey conditionKeys condition eventTimeNs eventValues s) =
        statsdStats s @
          [noteMetricDimensionSize (mConfigKey s) (mMetricId s)
             (length (mCurrentSlicedDurationTrackerMap s) + 1)]"
    using absent by (simp add: handleStartEvent_def guard Let_def)
  show "mCurrentSlicedDurationTrackerMap
                (handleStartEvent env eventKey conditionKeys condition eventTimeNs eventValues s) =
              mCurrentSlicedDurationTrackerMap s @
                [(getDimensionKeyInWhat eventKey,
                  noteStart env
                    (if mUseWhatDimensionAsInternalDimension s then getDimensionKeyInWhat eventKey
                     else if mInternalDimensions s = [] then DEFAULT_DIMENSION_KEY
                     else filterValues env (mInternalDimensions s) eventValues
                            DEFAULT_DIMENSION_KEY)
                    condition eventTimeNs conditionKeys (mDimensionHardLimit s)
                    (createDurationTracker env eventKey s))]"
    using absent
    by (simp add: handleStartEvent_def guard Let_def update_absent map_entry_absent_snoc
          createDurationTracker_def)
qed

theorem handleStartEvent_guardrail_witness:
  "handleStartEvent recording_env ([3], []) Map.empty True 130 [3, 9] two_key_producer =
     two_key_producer\<lparr>mHasHitGuardrail := True,
        statsdStats := [noteMetricDimensionSize (1000, 12345) 7 3, noteHardDimensionLimitReached 7]\<rparr> \<and>
   statsdStats (handleStartEvent recording_env ([2], []) Map.empty False 130 [2, 9] one_key_producer) =
     [noteMetricDimensionSize (1000, 12345) 7 2] \<and>
   mCurrentSlicedDurationTrackerMap
       (handleStartEvent recording_env ([2], []) Map.empty False 130 [2, 9] one_key_producer) =
     [([1], [True]), ([2], [False])]"
  using handleStartEvent_guardrail [where s = two_key_producer and eventKey = "([3], [])"
          and env = recording_env and conditionKeys = Map.empty and condition = True
          and eventTimeNs = 130 and eventValues = "[3, 9]"]
        handleStartEvent_guardrail [where s = one_key_producer and eventKey = "([2], [])"
          and env = recording_env and conditionKeys = Map.empty and condition = False
          and eventTimeNs = 130 and eventValues = "[2, 9]"]
  by (simp add: recording_env_def one_key_producer_def two_key_producer_def
        getDimensionKeyInWhat_def createDurationTracker_def)

subsection \<open>Bucket boundary\<close>













subsection \<open>Events before the time base\<close>

text \<open>
  C7. \<open>handleMatchedLogEventValuesLocked\<close> with an event time before \<open>mTimeBaseNs\<close>
  returns the producer it was given: tracker map, past buckets, bucket number, bucket
  start time and every other member are unchanged.
\<close>

theorem handleMatchedLogEventValuesLocked_before_time_base:
  "eventTimeNs < mTimeBaseNs s \<Longrightarrow>
     handleMatchedLogEventValuesLocked env matcherIndex values eventTimeNs s = Some s"
  by (simp add: handleMatchedLogEventValuesLocked_def)

theorem handleMatchedLogEventValuesLocked_before_time_base_witness:
  "handleMatchedLogEventValuesLocked recording_env 0 [1, 9] 99 one_key_producer =
     Some one_key_producer"
  using handleMatchedLogEventValuesLocked_before_time_base
          [of 99 one_key_producer recording_env 0 "[1, 9]"]
  by (simp add: one_key_producer_def)

subsection \<open>The unsliced condition\<close>

text \<open>
  C9. With a condition that is not sliced, a start event (not before the time base,
  neither the stop-all nor the stop matcher, passing the sample check) reaches
  \<open>handleStartEvent\<close> with the condition \<open>mCondition = kTrue \<and> mIsActive\<close> and an empty
  condition key. Whatever the matcher, a producer whose condition is \<open>kUnknown\<close> ends in
  the state it would reach from \<open>kFalse\<close>, the member \<open>mCondition\<close> apart.
\<close>

theorem unsliced_condition_unknown_as_false:
  assumes "\<not> mConditionSliced s"
  shows "(mTimeBaseNs s \<le> eventTimeNs \<and> narrow_int32 (int matcherIndex) \<noteq> mStopAllIndex s \<and>
          narrow_int32 (int matcherIndex) \<noteq> mStopIndex s \<and>
          passesSampleCheckLocked env values \<longrightarrow>
          (let flushed = (if mIsActive s then flushIfNeededLocked env eventTimeNs s else Some s);
               dimensionInWhat =
                 (if mDimensionsInWhat s \<noteq> []
                  then filterValues env (mDimensionsInWhat s) values DEFAULT_DIMENSION_KEY
                  else DEFAULT_DIMENSION_KEY);
               stateValuesKey =
                 stateValuesKeyOf env (statePrimaryKeysOf env values (mMetric2StateLinks s))
                   (mSlicedStateAtoms s)
           in handleMatchedLogEventValuesLocked env matcherIndex values eventTimeNs s =
                map_option
                  (handleStartEvent env (dimensionInWhat, stateValuesKey) Map.empty
                     (mCondition s = kTrue \<and> mIsActive s) eventTimeNs values)
                  flushed)) \<and>
         handleMatchedLogEventValuesLocked env matcherIndex values eventTimeNs
             (s\<lparr>mCondition := kUnknown\<rparr>) =
           map_option (\<lambda>s'. s'\<lparr>mCondition := kUnknown\<rparr>)
             (handleMatchedLogEventValuesLocked env matcherIndex values eventTimeNs
                (s\<lparr>mCondition := kFalse\<rparr>))"
proof (intro conjI impI)
  assume start: "mTimeBaseNs s \<le> eventTimeNs \<and>
          narrow_int32 (int matcherIndex) \<noteq> mStopAllIndex s \<and>
          narrow_int32 (int matcherIndex) \<noteq> mStopIndex s \<and> passesSampleCheckLocked env values"
  have "handleMatchedLogEventValuesLocked env matcherIndex values eventTimeNs s =
          map_option
            (handleStartEvent env
               ((if mDimensionsInWhat s \<noteq> []
                 then filterValues env (mDimensionsInWhat s) values DEFAULT_DIMENSION_KEY
                 else DEFAULT_DIMENSION_KEY),
                stateValuesKeyOf env (statePrimaryKeysOf env values (mMetric2StateLinks s))
                  (mSlicedStateAtoms s))
               Map.empty (mCondition s = kTrue \<and> mIsActive s) eventTimeNs values)
            (if mIsActive s then flushIfNeededLocked env eventTimeNs s else Some s)"
  proof (cases "if mIsActive s then flushIfNeededLocked env eventTimeNs s else Some s")
    case None
    then show ?thesis
      using start by (simp add: handleMatchedLogEventValuesLocked_def)
  next
    case (Some s1)
    have fr: "mIsActive s1 = mIsActive s" "mCondition s1 = mCondition s"
      "mConditionSliced s1 = mConditionSliced s" "mStopIndex s1 = mStopIndex s"
      "mStopAllIndex s1 = mStopAllIndex s" "mDimensionsInWhat s1 = mDimensionsInWhat s"
      "mMetric2StateLinks s1 = mMetric2StateLinks s" "mSlicedStateAtoms s1 = mSlicedStateAtoms s"
      using flushed_if_active_frame [OF Some] by simp_all
    show ?thesis
      using start assms
      by (simp add: handleMatchedLogEventValuesLocked_def Let_def Some fr)
  qed
  then show "(let flushed = (if mIsActive s then flushIfNeededLocked env eventTimeNs s else Some s);
               dimensionInWhat =
                 (if mDimensionsInWhat s \<noteq> []
                  then filterValues env (mDimensionsInWhat s) values DEFAULT_DIMENSION_KEY
                  else DEFAULT_DIMENSION_KEY);
               stateValuesKey =
                 stateValuesKeyOf env (statePrimaryKeysOf env values (mMetric2StateLinks s))
                   (mSlicedStateAtoms s)
           in handleMatchedLogEventValuesLocked env matcherIndex values eventTimeNs s =
                map_option
                  (handleStartEvent env (dimensionInWhat, stateValuesKey) Map.empty
                     (mCondition s = kTrue \<and> mIsActive s) eventTimeNs values)
                  flushed)"
    by (simp add: Let_def)
next
  show "handleMatchedLogEventValuesLocked env matcherIndex values eventTimeNs
             (s\<lparr>mCondition := kUnknown\<rparr>) =
           map_option (\<lambda>s'. s'\<lparr>mCondition := kUnknown\<rparr>)
             (handleMatchedLogEventValuesLocked env matcherIndex values eventTimeNs
                (s\<lparr>mCondition := kFalse\<rparr>))"
  proof (cases "if mIsActive s then flushIfNeededLocked env eventTimeNs s else Some s")
    case None
    then show ?thesis
      by (simp add: handleMatchedLogEventValuesLocked_def flushIfNeededLocked_mCondition
            split: if_splits)
  next
    case (Some s1)
    have fr: "mConditionSliced s1 = mConditionSliced s"
      using flushed_if_active_frame [OF Some] by simp
    have flushed: "(if mIsActive s then flushIfNeededLocked env eventTimeNs (s\<lparr>mCondition := c\<rparr>)
                    else Some (s\<lparr>mCondition := c\<rparr>)) = Some (s1\<lparr>mCondition := c\<rparr>)" for c
      using Some by (simp add: flushIfNeededLocked_mCondition split: if_splits)
    show ?thesis
      using assms flushed [of kUnknown] flushed [of kFalse]
      by (simp add: handleMatchedLogEventValuesLocked_def Let_def fr handleStartEvent_mCondition)
  qed
qed


theorem unsliced_condition_unknown_as_false_witness:
  "handleMatchedLogEventValuesLocked recording_env 0 [1, 9] 130 one_key_producer =
     Some (handleStartEvent recording_env ([1], []) Map.empty False 130 [1, 9] one_key_producer) \<and>
   handleMatchedLogEventValuesLocked recording_env 0 [1, 9] 130
       (one_key_producer\<lparr>mCondition := kUnknown\<rparr>) =
     map_option (\<lambda>s'. s'\<lparr>mCondition := kUnknown\<rparr>)
       (handleMatchedLogEventValuesLocked recording_env 0 [1, 9] 130
          (one_key_producer\<lparr>mCondition := kFalse\<rparr>))"
proof -
  have unsliced: "\<not> mConditionSliced one_key_producer"
    by (simp add: one_key_producer_def)
  have noflush: "flushIfNeededLocked recording_env 130 one_key_producer = Some one_key_producer"
    by (simp add: flushIfNeededLocked_def getCurrentBucketEndTimeNs_def one_key_producer_def
          narrow_int64_def)
  have fields: "mTimeBaseNs one_key_producer = 100" "mStopAllIndex one_key_producer = 2"
    "mStopIndex one_key_producer = 1" "mIsActive one_key_producer"
    "mDimensionsInWhat one_key_producer = [1, 2, 3]"
    "mMetric2StateLinks one_key_producer = []" "mSlicedStateAtoms one_key_producer = []"
    "mCondition one_key_producer = kUnknown"
    by (simp_all add: one_key_producer_def)
  have env: "passesSampleCheckLocked recording_env [1, 9]"
    "filterValues recording_env [1, 2, 3] [1, 9] DEFAULT_DIMENSION_KEY = [1]"
    by (simp_all add: recording_env_def DEFAULT_DIMENSION_KEY_def)
  show ?thesis
    using unsliced_condition_unknown_as_false
            [OF unsliced, of 130 0 recording_env "[1, 9]"]
    by (simp add: noflush fields env narrow_int32_def stateValuesKeyOf_def
          statePrimaryKeysOf_def)
qed

subsection \<open>Further properties of the producer\<close>

lemma cdiv_nonneg: "0 \<le> a \<Longrightarrow> 0 < b \<Longrightarrow> cdiv a b = a div b"
  by (simp add: cdiv_def sgn_if)

text \<open>
  An event at or after the end of the current bucket of a producer with a positive
  bucket size moves the producer forward by the whole buckets that have passed (as long
  as their number fits the \<open>int\<close> the source counts them in, and the bounds of the new
  bucket fit 64 bits): the new current bucket contains the event and has the full bucket
  size.
\<close>

theorem flush_event_in_new_bucket:
  assumes size: "0 < mBucketSizeNs s"
      and base: "0 \<le> mTimeBaseNs s"
      and num: "0 \<le> mCurrentBucketNum s"
      and due: "getCurrentBucketEndTimeNs s \<le> eventTimeNs"
      and count: "1 + (eventTimeNs - getCurrentBucketEndTimeNs s) div mBucketSizeNs s < 2 ^ 31"
      and fits: "mTimeBaseNs s +
                   (mCurrentBucketNum s +
                      (eventTimeNs - getCurrentBucketEndTimeNs s) div mBucketSizeNs s + 2) *
                   mBucketSizeNs s < 2 ^ 63"
  shows "\<exists>s1. flushIfNeededLocked env eventTimeNs s = Some s1 \<and>
           mCurrentBucketNum s1 =
             mCurrentBucketNum s + 1 +
               (eventTimeNs - getCurrentBucketEndTimeNs s) div mBucketSizeNs s \<and>
           mCurrentBucketStartTimeNs s1 \<le> eventTimeNs \<and>
           eventTimeNs < getCurrentBucketEndTimeNs s1 \<and>
           getCurrentBucketEndTimeNs s1 - mCurrentBucketStartTimeNs s1 = mBucketSizeNs s"
proof -
  define b where "b = mBucketSizeNs s"
  define n where "n = mCurrentBucketNum s"
  define tb where "tb = mTimeBaseNs s"
  define e where "e = getCurrentBucketEndTimeNs s"
  define q where "q = (eventTimeNs - e) div b"
  define r where "r = (eventTimeNs - e) mod b"
  have fs: "mBucketSizeNs s = b" "mCurrentBucketNum s = n" "mTimeBaseNs s = tb"
    "getCurrentBucketEndTimeNs s = e"
    by (simp_all add: b_def n_def tb_def e_def)
  have b1: "1 \<le> b" using size by (simp add: b_def)
  have n0: "0 \<le> n" using num by (simp add: n_def)
  have tb0: "0 \<le> tb" using base by (simp add: tb_def)
  have d0: "0 \<le> eventTimeNs - e" using due by (simp add: e_def)
  have q0: "0 \<le> q" using d0 b1 by (simp add: q_def pos_imp_zdiv_nonneg_iff)
  have r0: "0 \<le> r" and rb: "r < b" using b1 by (simp_all add: r_def)
  have split: "eventTimeNs - e = q * b + r" by (simp add: q_def r_def)
  define p where "p = n * b"
  define qb where "qb = q * b"
  have np: "n \<le> p" using n0 b1 by (simp add: p_def mult_le_cancel_left1)
  have qqb: "q \<le> qb" using q0 b1 by (simp add: qb_def mult_le_cancel_left1)
  have m1: "(n + 1) * b = p + b" and m2: "(n + q + 2) * b = p + qb + b + b"
    and m3: "(n + 1 + q + 1) * b = p + qb + b + b"
    by (simp_all add: p_def qb_def algebra_simps)
  have lim: "tb + p + qb + b + b < 9223372036854775808"
    using fits unfolding fs q_def [symmetric] m2 by simp
  note A = n0 np q0 qqb r0 rb b1 tb0 lim
  have q31: "1 + q < 2147483648" using count unfolding fs q_def [symmetric] by simp
  have r1: "narrow_int64 (n + 1) = n + 1"
    using A by (intro narrow_int64_id; simp)
  have r2: "narrow_int64 (p + b) = p + b"
    using A by (intro narrow_int64_id; simp)
  have r3: "narrow_int64 (tb + (p + b)) = tb + (p + b)"
    using A by (intro narrow_int64_id; simp)
  have e: "e = tb + (p + b)"
    unfolding e_def getCurrentBucketEndTimeNs_def fs r1 m1 r2 r3 by (rule refl)
  have t: "eventTimeNs = tb + p + b + qb + r" using split e by (simp add: qb_def)
  have el: "narrow_int64 (eventTimeNs - e) = qb + r"
    unfolding t e using A by (intro trans [OF narrow_int64_id]; simp)
  have eq: "qb + r = eventTimeNs - e" by (simp only: split qb_def)
  have cd: "cdiv (qb + r) b = q"
    unfolding eq q_def using d0 b1 by (simp add: cdiv_nonneg)
  have a1: "narrow_int64 (1 + q) = 1 + q"
    using q0 q31 by (intro narrow_int64_id; simp)
  have a2: "narrow_int32 (1 + q) = 1 + q"
    using q0 q31 by (simp add: narrow_int32_def)
  have a3: "narrow_int32 (1 + q - 1) = q"
    using q0 q31 by (simp add: narrow_int32_def)
  have a4: "narrow_int64 (q * b) = qb"
    unfolding qb_def [symmetric] using A by (intro narrow_int64_id; simp)
  have a5: "narrow_int64 (e + qb) = e + qb"
    unfolding e using A by (intro narrow_int64_id; simp)
  have a6: "narrow_int64 (n + (1 + q)) = n + 1 + q"
    using A by (intro trans [OF narrow_int64_id]; simp)
  have notrap: "\<not> int64_div_traps a b" for a using b1 by (simp add: int64_div_traps_def)
  define s1 where "s1 = (flushCurrentBucketLocked env eventTimeNs (e + qb) s)
                          \<lparr>mCurrentBucketNum := n + 1 + q\<rparr>"
  have fr: "mCurrentBucketNum (flushCurrentBucketLocked env a c s) = n"
    "mTimeBaseNs (flushCurrentBucketLocked env a c s) = tb"
    "mBucketSizeNs (flushCurrentBucketLocked env a c s) = b"
    "mCurrentBucketStartTimeNs (flushCurrentBucketLocked env a c s) = c" for a c
    by (simp_all add: flushCurrentBucketLocked_eq n_def tb_def b_def)
  have flushed: "flushIfNeededLocked env eventTimeNs s = Some s1"
    unfolding flushIfNeededLocked_def Let_def fs el cd a1 a2 a3 a4 a5 fr a6 s1_def
    using due notrap by (simp add: fs)
  have s1f: "mTimeBaseNs s1 = tb" "mCurrentBucketNum s1 = n + 1 + q" "mBucketSizeNs s1 = b"
    "mCurrentBucketStartTimeNs s1 = e + qb"
    by (simp_all add: s1_def fr)
  have b1': "narrow_int64 (n + 1 + q + 1) = n + 1 + q + 1"
    using A by (intro narrow_int64_id; simp)
  have b2: "narrow_int64 (p + qb + b + b) = p + qb + b + b"
    using A by (intro narrow_int64_id; simp)
  have b3: "narrow_int64 (tb + (p + qb + b + b)) = tb + (p + qb + b + b)"
    using A by (intro narrow_int64_id; simp)
  have e1: "getCurrentBucketEndTimeNs s1 = tb + (p + qb + b + b)"
    unfolding getCurrentBucketEndTimeNs_def s1f b1' m3 b2 b3 by (rule refl)
  have c1: "mCurrentBucketStartTimeNs s1 \<le> eventTimeNs"
    unfolding s1f e t using A by linarith
  have c2: "eventTimeNs < getCurrentBucketEndTimeNs s1"
    unfolding e1 t using A by linarith
  have c3: "getCurrentBucketEndTimeNs s1 - mCurrentBucketStartTimeNs s1 = mBucketSizeNs s"
    unfolding e1 s1f e fs by linarith
  have c4: "mCurrentBucketNum s1 =
             mCurrentBucketNum s + 1 +
               (eventTimeNs - getCurrentBucketEndTimeNs s) div mBucketSizeNs s"
    unfolding s1f fs q_def by (rule refl)
  show ?thesis using flushed c1 c2 c3 c4 by blast
qed


theorem flush_event_in_new_bucket_witness:
  "\<exists>s1. flushIfNeededLocked recording_env 290 one_key_producer = Some s1 \<and>
         mCurrentBucketNum s1 = 3 \<and>
         mCurrentBucketStartTimeNs s1 \<le> 290 \<and>
         290 < getCurrentBucketEndTimeNs s1 \<and>
         getCurrentBucketEndTimeNs s1 - mCurrentBucketStartTimeNs s1 = 60"
proof -
  have facts: "mBucketSizeNs one_key_producer = 60"
    "getCurrentBucketEndTimeNs one_key_producer = 160"
    "mCurrentBucketNum one_key_producer = 0" "mTimeBaseNs one_key_producer = 100"
    by (simp_all add: one_key_producer_def getCurrentBucketEndTimeNs_def narrow_int64_def)
  show ?thesis
    using flush_event_in_new_bucket [of one_key_producer 290 recording_env]
    by (simp add: facts)
qed

lemma stopAllTrackers_accumulated:
  "\<forall>(k, tr) \<in> set (stopAllTrackers env t trackers). hasAccumulatedDuration env tr"
  by (induction trackers) (auto simp: Let_def split: if_splits)

text \<open>
  A stop-all event not before the time base notes the stop on every tracker and erases
  the trackers that have no accumulated duration left: every tracker that stays in the
  map has accumulated duration.
\<close>

theorem stop_all_keeps_accumulating_trackers:
  assumes "mTimeBaseNs s \<le> eventTimeNs"
      and "narrow_int32 (int matcherIndex) = mStopAllIndex s"
      and "handleMatchedLogEventValuesLocked env matcherIndex values eventTimeNs s = Some s'"
  shows "(\<exists>s1. (if mIsActive s then flushIfNeededLocked env eventTimeNs s else Some s) = Some s1 \<and>
               mCurrentSlicedDurationTrackerMap s' =
                 stopAllTrackers env eventTimeNs (mCurrentSlicedDurationTrackerMap s1)) \<and>
         list_all (\<lambda>entry. hasAccumulatedDuration env (snd entry))
           (mCurrentSlicedDurationTrackerMap s')"
proof -
  obtain s1 where s1: "(if mIsActive s then flushIfNeededLocked env eventTimeNs s else Some s) = Some s1"
    using assms by (cases "if mIsActive s then flushIfNeededLocked env eventTimeNs s else Some s")
      (simp_all add: handleMatchedLogEventValuesLocked_def)
  have idx: "mStopAllIndex s1 = mStopAllIndex s"
    using flushed_if_active_frame [OF s1] by simp
  have m: "mCurrentSlicedDurationTrackerMap s' =
             stopAllTrackers env eventTimeNs (mCurrentSlicedDurationTrackerMap s1)"
    using assms by (auto simp add: handleMatchedLogEventValuesLocked_def s1 idx)
  have "list_all (\<lambda>entry. hasAccumulatedDuration env (snd entry))
          (stopAllTrackers env eventTimeNs trackers)" for trackers
    using stopAllTrackers_accumulated [of env eventTimeNs trackers]
    by (auto simp: list_all_iff)
  with m s1 show ?thesis by simp
qed

theorem stop_all_keeps_accumulating_trackers_witness:
  "handleMatchedLogEventValuesLocked recording_env 2 [1, 9] 130 two_key_producer =
     Some (two_key_producer\<lparr>mCurrentSlicedDurationTrackerMap := []\<rparr>) \<and>
   list_all (\<lambda>entry. hasAccumulatedDuration recording_env (snd entry))
     (mCurrentSlicedDurationTrackerMap (two_key_producer\<lparr>mCurrentSlicedDurationTrackerMap := []\<rparr>))"
proof -
  have noflush: "flushIfNeededLocked recording_env 130 two_key_producer = Some two_key_producer"
    by (simp add: flushIfNeededLocked_def getCurrentBucketEndTimeNs_def two_key_producer_def
          one_key_producer_def narrow_int64_def)
  have handled: "handleMatchedLogEventValuesLocked recording_env 2 [1, 9] 130 two_key_producer =
     Some (two_key_producer\<lparr>mCurrentSlicedDurationTrackerMap := []\<rparr>)"
    unfolding handleMatchedLogEventValuesLocked_def
    by (simp add: noflush narrow_int32_def)
       (simp add: two_key_producer_def one_key_producer_def recording_env_def)
  have facts: "mTimeBaseNs two_key_producer \<le> 130"
    "narrow_int32 (int 2) = mStopAllIndex two_key_producer"
    by (simp_all add: two_key_producer_def one_key_producer_def narrow_int32_def)
  show ?thesis
    using stop_all_keeps_accumulating_trackers [OF facts handled] handled
    by simp
qed

lemma map_entry_keys: "map fst (AList.map_entry k f al) = map fst al"
  by (induction al) auto

text \<open>
  A start event for a what-key that already has a tracker never meets the guardrail:
  nothing is reported to \<open>StatsdStats\<close>, the keys of the map stay as they are, and the
  start is noted on the tracker of the key.
\<close>

theorem start_of_tracked_key:
  assumes "map_of (mCurrentSlicedDurationTrackerMap s) (getDimensionKeyInWhat eventKey) = Some tr"
  shows "statsdStats
           (handleStartEvent env eventKey conditionKeys condition eventTimeNs eventValues s) =
           statsdStats s \<and>
         mHasHitGuardrail
           (handleStartEvent env eventKey conditionKeys condition eventTimeNs eventValues s) =
           mHasHitGuardrail s \<and>
         map fst (mCurrentSlicedDurationTrackerMap
           (handleStartEvent env eventKey conditionKeys condition eventTimeNs eventValues s)) =
           map fst (mCurrentSlicedDurationTrackerMap s) \<and>
         map_of (mCurrentSlicedDurationTrackerMap
           (handleStartEvent env eventKey conditionKeys condition eventTimeNs eventValues s))
           (getDimensionKeyInWhat eventKey) =
           Some (noteStart env
                   (if mUseWhatDimensionAsInternalDimension s then getDimensionKeyInWhat eventKey
                    else if mInternalDimensions s = [] then DEFAULT_DIMENSION_KEY
                    else filterValues env (mInternalDimensions s) eventValues
                           DEFAULT_DIMENSION_KEY)
                   condition eventTimeNs conditionKeys (mDimensionHardLimit s) tr)"
  using assms
  by (simp add: handleStartEvent_def Let_def map_entry_keys map_of_map_entry)

theorem start_of_tracked_key_witness:
  "statsdStats (handleStartEvent recording_env ([1], []) Map.empty False 130 [1, 9]
      one_key_producer) = [] \<and>
   map_of (mCurrentSlicedDurationTrackerMap
      (handleStartEvent recording_env ([1], []) Map.empty False 130 [1, 9] one_key_producer)) [1]
     = Some [True, False]"
proof -
  have tracked: "map_of (mCurrentSlicedDurationTrackerMap one_key_producer)
                   (getDimensionKeyInWhat ([1], [])) = Some [True]"
    by (simp add: one_key_producer_def getDimensionKeyInWhat_def)
  have facts: "statsdStats one_key_producer = []"
    "mUseWhatDimensionAsInternalDimension one_key_producer"
    "getDimensionKeyInWhat ([1::int], [] :: int list) = [1]"
    "noteStart recording_env [1] False 130 Map.empty (mDimensionHardLimit one_key_producer)
       [True] = [True, False]"
    by (simp_all add: one_key_producer_def getDimensionKeyInWhat_def recording_env_def)
  show ?thesis
    using start_of_tracked_key [OF tracked, of recording_env Map.empty False 130 "[1, 9]"]
    by (simp add: facts)
qed

text \<open>
  Below the soft limit a first-seen key is admitted without any report, whatever the
  hard limit is: the hard limit is only looked at once the soft limit is reached.
\<close>

theorem start_below_soft_limit:
  assumes "map_of (mCurrentSlicedDurationTrackerMap s) (getDimensionKeyInWhat eventKey) = None"
      and "length (mCurrentSlicedDurationTrackerMap s) < kDimensionKeySizeSoftLimit env"
  shows "statsdStats
           (handleStartEvent env eventKey conditionKeys condition eventTimeNs eventValues s) =
           statsdStats s \<and>
         map fst (mCurrentSlicedDurationTrackerMap
           (handleStartEvent env eventKey conditionKeys condition eventTimeNs eventValues s)) =
           map fst (mCurrentSlicedDurationTrackerMap s) @ [getDimensionKeyInWhat eventKey]"
  using assms
  by (simp add: handleStartEvent_def hitGuardRailLocked_def Let_def update_absent
        map_entry_absent_snoc)

theorem start_below_soft_limit_witness:
  "map fst (mCurrentSlicedDurationTrackerMap
      (handleStartEvent recording_env ([2], []) Map.empty True 130 [2, 9]
         (one_key_producer\<lparr>mCurrentSlicedDurationTrackerMap := []\<rparr>))) = [[2]]"
proof -
  have absent: "map_of (mCurrentSlicedDurationTrackerMap
                   (one_key_producer\<lparr>mCurrentSlicedDurationTrackerMap := []\<rparr>))
                   (getDimensionKeyInWhat ([2], [])) = None"
    by simp
  have below: "length (mCurrentSlicedDurationTrackerMap
                  (one_key_producer\<lparr>mCurrentSlicedDurationTrackerMap := []\<rparr>))
                < kDimensionKeySizeSoftLimit recording_env"
    by (simp add: recording_env_def)
  show ?thesis
    using start_below_soft_limit [OF absent below, of Map.empty True 130 "[2, 9]"]
    by (simp add: getDimensionKeyInWhat_def)
qed

subsection \<open>Log source credentials\<close>

text \<open>
  C10. \<open>checkLogCredentials\<close> accepts every event whose tag is whitelisted and
  every event logged by root or by a uid in \<open>[AID_SYSTEM, AID_SHELL)\<close>, whatever the
  allowed log sources are; every other event is accepted exactly when its uid is an
  allowed log source.
\<close>

theorem checkLogCredentials_spec:
  "(GetTagId event \<in> mWhitelistedAtomIds m \<longrightarrow> checkLogCredentials aid m event) \<and>
   (GetUid event = AID_ROOT aid \<or>
      (AID_SYSTEM aid \<le> GetUid event \<and> GetUid event < AID_SHELL aid)
      \<longrightarrow> checkLogCredentials aid m event) \<and>
   (GetTagId event \<notin> mWhitelistedAtomIds m \<and> GetUid event \<noteq> AID_ROOT aid \<and>
      \<not> (AID_SYSTEM aid \<le> GetUid event \<and> GetUid event < AID_SHELL aid)
      \<longrightarrow> (checkLogCredentials aid m event \<longleftrightarrow> GetUid event \<in> mAllowedLogSources m))"
  by (simp add: checkLogCredentials_def)

theorem checkLogCredentials_spec_witness:
  "checkLogCredentials \<lparr>AID_ROOT = 0, AID_SYSTEM = 1000, AID_SHELL = 2000\<rparr>
      \<lparr>mWhitelistedAtomIds = {10}, mAllowedLogSources = {10001}\<rparr>
      \<lparr>GetTagId = 10, GetUid = 20000\<rparr> \<and>
   checkLogCredentials \<lparr>AID_ROOT = 0, AID_SYSTEM = 1000, AID_SHELL = 2000\<rparr>
      \<lparr>mWhitelistedAtomIds = {10}, mAllowedLogSources = {10001}\<rparr>
      \<lparr>GetTagId = 11, GetUid = 1999\<rparr> \<and>
   checkLogCredentials \<lparr>AID_ROOT = 0, AID_SYSTEM = 1000, AID_SHELL = 2000\<rparr>
      \<lparr>mWhitelistedAtomIds = {10}, mAllowedLogSources = {10001}\<rparr>
      \<lparr>GetTagId = 11, GetUid = 10001\<rparr> \<and>
   \<not> checkLogCredentials \<lparr>AID_ROOT = 0, AID_SYSTEM = 1000, AID_SHELL = 2000\<rparr>
      \<lparr>mWhitelistedAtomIds = {10}, mAllowedLogSources = {10001}\<rparr>
      \<lparr>GetTagId = 11, GetUid = 2000\<rparr>"
  using checkLogCredentials_spec [of "\<lparr>GetTagId = 10, GetUid = 20000\<rparr>"
          "\<lparr>mWhitelistedAtomIds = {10}, mAllowedLogSources = {10001}\<rparr>"
          "\<lparr>AID_ROOT = 0, AID_SYSTEM = 1000, AID_SHELL = 2000\<rparr>"]
        checkLogCredentials_spec [of "\<lparr>GetTagId = 11, GetUid = 1999\<rparr>"
          "\<lparr>mWhitelistedAtomIds = {10}, mAllowedLogSources = {10001}\<rparr>"
          "\<lparr>AID_ROOT = 0, AID_SYSTEM = 1000, AID_SHELL = 2000\<rparr>"]
        checkLogCredentials_spec [of "\<lparr>GetTagId = 11, GetUid = 10001\<rparr>"
          "\<lparr>mWhitelistedAtomIds = {10}, mAllowedLogSources = {10001}\<rparr>"
          "\<lparr>AID_ROOT = 0, AID_SYSTEM = 1000, AID_SHELL = 2000\<rparr>"]
        checkLogCredentials_spec [of "\<lparr>GetTagId = 11, GetUid = 2000\<rparr>"
          "\<lparr>mWhitelistedAtomIds = {10}, mAllowedLogSources = {10001}\<rparr>"
          "\<lparr>AID_ROOT = 0, AID_SYSTEM = 1000, AID_SHELL = 2000\<rparr>"]
  by simp

subsection \<open>Anomaly tracker: cached sums\<close>

lemma sum_list_update_int:
  "i < length xs \<Longrightarrow> sum_list (xs[i := y]) = sum_list xs - xs ! i + (y::int)"
  by (induction xs arbitrary: i) (auto split: nat.splits)

lemma member_le_sum_list_int:
  "\<forall>x \<in> set xs. (0::int) \<le> x \<Longrightarrow> x \<in> set xs \<Longrightarrow> x \<le> sum_list xs"
  by (induction xs) (auto simp: sum_list_nonneg add_increasing add_increasing2)

lemma scan_update:
  "i < length (mPastBuckets t) \<Longrightarrow>
   scanPastBuckets (t\<lparr>mPastBuckets := (mPastBuckets t)[i := slot], mSumOverPastBuckets := sums\<rparr>) key =
     scanPastBuckets t key - pastBucketValue (mPastBuckets t ! i) key + pastBucketValue slot key"
  by (simp add: scanPastBuckets_def map_update sum_list_update_int)

lemma pastBucketValue_nonneg: "valuesFrom 0 slot \<Longrightarrow> 0 \<le> pastBucketValue slot key"
  by (auto simp: valuesFrom_def pastBucketValue_def ran_def split: option.splits)

lemma slot_le_scan:
  assumes "\<forall>slot \<in> set (mPastBuckets t). valuesFrom 0 slot" "i < length (mPastBuckets t)"
  shows "pastBucketValue (mPastBuckets t ! i) key \<le> scanPastBuckets t key"
proof -
  have "\<forall>x \<in> set (map (\<lambda>slot. pastBucketValue slot key) (mPastBuckets t)). 0 \<le> x"
    using assms(1) by (auto simp: pastBucketValue_nonneg)
  moreover have "pastBucketValue (mPastBuckets t ! i) key
      \<in> set (map (\<lambda>slot. pastBucketValue slot key) (mPastBuckets t))"
    using assms(2) by (simp add: nth_mem)
  ultimately show ?thesis
    unfolding scanPastBuckets_def by (rule member_le_sum_list_int)
qed

lemma scan_nonneg:
  "\<forall>slot \<in> set (mPastBuckets t). valuesFrom 0 slot \<Longrightarrow> 0 \<le> scanPastBuckets t key"
  by (auto simp: scanPastBuckets_def pastBucketValue_nonneg intro!: sum_list_nonneg)

lemma cached_subtractValue:
  assumes "cached sums key = 0 \<Longrightarrow> v = 0"
  shows "cached (subtractValueFromSum key v sums) key = cached sums key - v"
proof (cases "sums key")
  case None
  then have "cached sums key = 0" by (simp add: cached_def)
  with assms have "v = 0" by simp
  with None show ?thesis by (simp add: cached_def subtractValueFromSum_def)
next
  case (Some s)
  then show ?thesis by (simp add: cached_def subtractValueFromSum_def)
qed

lemma cached_subtractValue_other:
  "k \<noteq> key \<Longrightarrow> cached (subtractValueFromSum key v sums) k = cached sums k"
  by (simp add: cached_def subtractValueFromSum_def split: option.splits)

lemma cached_subtractBucket:
  assumes "cached sums key = 0 \<Longrightarrow> pastBucketValue slot key = 0"
  shows "cached (subtractBucketFromSum slot sums) key = cached sums key - pastBucketValue slot key"
proof (cases slot)
  case None
  then show ?thesis by (simp add: subtractBucketFromSum_def pastBucketValue_def)
next
  case (Some b)
  show ?thesis
  proof (cases "b key")
    case None
    with Some show ?thesis
      by (simp add: subtractBucketFromSum_def pastBucketValue_def cached_def)
  next
    case (Some v)
    with \<open>slot = Some b\<close> have pv: "pastBucketValue slot key = v"
      by (simp add: pastBucketValue_def)
    have "cached (subtractBucketFromSum slot sums) key =
            cached (subtractValueFromSum key v sums) key"
      using Some \<open>slot = Some b\<close> by (simp add: subtractBucketFromSum_def cached_def)
    also have "\<dots> = cached sums key - v"
      using assms pv by (intro cached_subtractValue) simp
    finally show ?thesis by (simp add: pv)
  qed
qed

lemma cached_addBucket:
  "cached (addBucketToSum slot sums) key = cached sums key + pastBucketValue slot key"
  by (simp add: addBucketToSum_def pastBucketValue_def cached_def Let_def split: option.splits)


lemma getSum_cached: "getSumOverPastBuckets t key = cached (mSumOverPastBuckets t) key"
  by (simp add: getSumOverPastBuckets_def cached_def)

lemma consistentI:
  assumes "\<And>slot. slot \<in> set (mPastBuckets t) \<Longrightarrow> valuesFrom 0 slot"
      and "\<And>key. cached (mSumOverPastBuckets t) key = scanPastBuckets t key"
  shows "pastBucketsConsistent t"
  using assms by (simp add: pastBucketsConsistent_def getSum_cached)

lemma consistent_values:
  "pastBucketsConsistent t \<Longrightarrow> slot \<in> set (mPastBuckets t) \<Longrightarrow> valuesFrom 0 slot"
  by (simp add: pastBucketsConsistent_def)

lemma consistent_sum:
  "pastBucketsConsistent t \<Longrightarrow> cached (mSumOverPastBuckets t) key = scanPastBuckets t key"
  by (simp add: pastBucketsConsistent_def getSum_cached)

lemma consistent_zero:
  assumes "pastBucketsConsistent t" "i < length (mPastBuckets t)"
      and "cached (mSumOverPastBuckets t) key = 0"
  shows "pastBucketValue (mPastBuckets t ! i) key = 0"
proof -
  have all: "\<forall>slot \<in> set (mPastBuckets t). valuesFrom 0 slot"
    using assms(1) by (simp add: pastBucketsConsistent_def)
  have "pastBucketValue (mPastBuckets t ! i) key \<le> scanPastBuckets t key"
    using all assms(2) by (rule slot_le_scan)
  moreover have "scanPastBuckets t key = 0"
    using assms(1,3) by (simp add: consistent_sum)
  moreover have "0 \<le> pastBucketValue (mPastBuckets t ! i) key"
    using all assms(2) by (simp add: pastBucketValue_nonneg)
  ultimately show ?thesis by simp
qed

lemma replaceSlot_consistent:
  assumes inv: "pastBucketsConsistent t" and i: "i < length (mPastBuckets t)"
      and new: "valuesFrom 0 slot"
      and sums: "\<And>key. cached sums key =
                   cached (mSumOverPastBuckets t) key
                     - pastBucketValue (mPastBuckets t ! i) key + pastBucketValue slot key"
  shows "pastBucketsConsistent
           (t\<lparr>mPastBuckets := (mPastBuckets t)[i := slot], mSumOverPastBuckets := sums\<rparr>)"
proof (rule consistentI)
  fix s
  assume "s \<in> set (mPastBuckets
            (t\<lparr>mPastBuckets := (mPastBuckets t)[i := slot], mSumOverPastBuckets := sums\<rparr>))"
  then have "s \<in> insert slot (set (mPastBuckets t))"
    using set_update_subset_insert [of "mPastBuckets t" i slot] by auto
  then show "valuesFrom 0 s"
    using new inv by (auto simp: consistent_values)
next
  fix key
  show "cached (mSumOverPastBuckets
           (t\<lparr>mPastBuckets := (mPastBuckets t)[i := slot], mSumOverPastBuckets := sums\<rparr>)) key =
        scanPastBuckets
           (t\<lparr>mPastBuckets := (mPastBuckets t)[i := slot], mSumOverPastBuckets := sums\<rparr>) key"
    using i by (simp add: scan_update sums consistent_sum [OF inv])
qed

lemma removeBucket_consistent:
  assumes inv: "pastBucketsConsistent t"
  shows "pastBucketsConsistent (removeBucket bucketNum t)"
proof (cases "index t bucketNum < length (mPastBuckets t)")
  case False
  then show ?thesis using inv by (simp add: removeBucket_def)
next
  case True
  have "pastBucketsConsistent
          (t\<lparr>mPastBuckets := (mPastBuckets t)[index t bucketNum := None],
             mSumOverPastBuckets :=
               subtractBucketFromSum (mPastBuckets t ! index t bucketNum) (mSumOverPastBuckets t)\<rparr>)"
  proof (rule replaceSlot_consistent [OF inv True])
    show "valuesFrom 0 None" by (simp add: valuesFrom_def)
  next
    fix key
    have "cached (subtractBucketFromSum (mPastBuckets t ! index t bucketNum)
                    (mSumOverPastBuckets t)) key =
            cached (mSumOverPastBuckets t) key
              - pastBucketValue (mPastBuckets t ! index t bucketNum) key"
      by (rule cached_subtractBucket) (rule consistent_zero [OF inv True])
    then show "cached (subtractBucketFromSum (mPastBuckets t ! index t bucketNum)
                    (mSumOverPastBuckets t)) key =
            cached (mSumOverPastBuckets t) key
              - pastBucketValue (mPastBuckets t ! index t bucketNum) key
              + pastBucketValue None key"
      by (simp add: pastBucketValue_def)
  qed
  then show ?thesis using True by (simp add: removeBucket_def)
qed

lemma fold_removeBucket_consistent:
  "pastBucketsConsistent t \<Longrightarrow> pastBucketsConsistent (fold removeBucket nums t)"
  by (induction nums arbitrary: t) (simp_all add: removeBucket_consistent)

lemma consistent_mMostRecentBucketNum:
  "pastBucketsConsistent (t\<lparr>mMostRecentBucketNum := n\<rparr>) = pastBucketsConsistent t"
  by (simp add: pastBucketsConsistent_def getSumOverPastBuckets_def scanPastBuckets_def)

lemma advance_consistent:
  "pastBucketsConsistent t \<Longrightarrow> pastBucketsConsistent (advanceMostRecentBucketTo bucketNum t)"
  by (simp add: advanceMostRecentBucketTo_def consistent_mMostRecentBucketNum
        fold_removeBucket_consistent)

lemma removeBucket_slot:
  "index (removeBucket n t) n < length (mPastBuckets (removeBucket n t)) \<Longrightarrow>
     mPastBuckets (removeBucket n t) ! index (removeBucket n t) n = None"
  by (simp add: removeBucket_def index_def split: if_splits)

lemma addPastBucket_consistent:
  assumes inv: "pastBucketsConsistent t" and new: "valuesFrom 0 bucket"
  shows "pastBucketsConsistent (addPastBucket bucket bucketNum t)"
proof -
  define t1 where "t1 = removeBucket bucketNum
                   (if bucketNum \<le> mMostRecentBucketNum t then t
                    else advanceMostRecentBucketTo bucketNum t)"
  have inv1: "pastBucketsConsistent t1"
    unfolding t1_def using inv by (simp add: removeBucket_consistent advance_consistent)
  have step: "pastBucketsConsistent
          (t1\<lparr>mPastBuckets := (mPastBuckets t1)[index t1 bucketNum := bucket],
              mSumOverPastBuckets := addBucketToSum bucket (mSumOverPastBuckets t1)\<rparr>)"
    if i: "index t1 bucketNum < length (mPastBuckets t1)"
  proof (rule replaceSlot_consistent [OF inv1 i new])
    fix key
    have "mPastBuckets t1 ! index t1 bucketNum = None"
      using i unfolding t1_def by (rule removeBucket_slot)
    then show "cached (addBucketToSum bucket (mSumOverPastBuckets t1)) key =
            cached (mSumOverPastBuckets t1) key
              - pastBucketValue (mPastBuckets t1 ! index t1 bucketNum) key
              + pastBucketValue bucket key"
      by (simp add: cached_addBucket pastBucketValue_def)
  qed
  show ?thesis
    using inv inv1 step
    by (simp add: addPastBucket_def Let_def t1_def [symmetric])
qed


lemma valuesFrom_upd:
  "valuesFrom low (Some b) \<Longrightarrow> low \<le> v \<Longrightarrow> valuesFrom low (Some (b(key \<mapsto> v)))"
  by (auto simp: valuesFrom_def ran_def split: if_splits)

lemma valuesFrom_single: "low \<le> v \<Longrightarrow> valuesFrom low (Some [key \<mapsto> v])"
  by (auto simp: valuesFrom_def ran_def split: if_splits)

lemma replaceValue_sums:
  assumes zero: "cached sums key = 0 \<Longrightarrow> pastBucketValue (Some b) key = 0"
  shows "cached (addBucketToSum (Some [key \<mapsto> v])
                   (case b key of None \<Rightarrow> sums
                    | Some old \<Rightarrow> subtractValueFromSum key old sums)) k =
         cached sums k - pastBucketValue (Some b) k + pastBucketValue (Some (b(key \<mapsto> v))) k"
proof (cases "k = key")
  case False
  then show ?thesis
    by (simp add: cached_addBucket pastBucketValue_def cached_subtractValue_other
          split: option.splits)
next
  case True
  have "cached (case b key of None \<Rightarrow> sums
                | Some old \<Rightarrow> subtractValueFromSum key old sums) key =
          cached sums key - pastBucketValue (Some b) key"
  proof (cases "b key")
    case None
    then show ?thesis by (simp add: pastBucketValue_def)
  next
    case (Some old)
    have "cached (subtractValueFromSum key old sums) key = cached sums key - old"
      using zero Some by (intro cached_subtractValue) (simp add: pastBucketValue_def)
    with Some show ?thesis by (simp add: pastBucketValue_def)
  qed
  with True show ?thesis
    by (simp add: cached_addBucket pastBucketValue_def)
qed

lemma addPastBucketValue_consistent:
  assumes inv: "pastBucketsConsistent t" and new: "0 \<le> bucketValue"
  shows "pastBucketsConsistent (addPastBucketValue key bucketValue bucketNum t)"
proof (cases "mNumOfPastBuckets t \<le> 0 \<or> bucketNum < 0 \<or>
         bucketNum \<le> mMostRecentBucketNum t - mNumOfPastBuckets t")
  case True
  then show ?thesis using inv by (simp add: addPastBucketValue_def)
next
  case live: False
  show ?thesis
  proof (cases "bucketNum \<le> mMostRecentBucketNum t \<and>
              index t bucketNum < length (mPastBuckets t) \<and>
              mPastBuckets t ! index t bucketNum \<noteq> None")
    case False
    then have "addPastBucketValue key bucketValue bucketNum t =
                 addPastBucket (Some [key \<mapsto> bucketValue]) bucketNum t"
      unfolding addPastBucketValue_def by (simp only: live False if_False)
    then show ?thesis
      using inv new by (simp add: addPastBucket_consistent valuesFrom_single)
  next
    case True
    then obtain b where b: "mPastBuckets t ! index t bucketNum = Some b" by auto
    from True have i: "index t bucketNum < length (mPastBuckets t)" by simp
    have old: "valuesFrom 0 (Some b)"
      using consistent_values [OF inv, of "Some b"] i b nth_mem [OF i] by simp
    have "pastBucketsConsistent
            (t\<lparr>mPastBuckets := (mPastBuckets t)[index t bucketNum := Some (b(key \<mapsto> bucketValue))],
               mSumOverPastBuckets :=
                 addBucketToSum (Some [key \<mapsto> bucketValue])
                   (case b key of
                      None \<Rightarrow> mSumOverPastBuckets t
                    | Some old \<Rightarrow> subtractValueFromSum key old (mSumOverPastBuckets t))\<rparr>)"
    proof (rule replaceSlot_consistent [OF inv i])
      show "valuesFrom 0 (Some (b(key \<mapsto> bucketValue)))"
        using old new by (rule valuesFrom_upd)
    next
      fix k
      have "cached (mSumOverPastBuckets t) key = 0 \<Longrightarrow> pastBucketValue (Some b) key = 0"
        using consistent_zero [OF inv i, of key] b by simp
      then show "cached (addBucketToSum (Some [key \<mapsto> bucketValue])
                   (case b key of None \<Rightarrow> mSumOverPastBuckets t
                    | Some old \<Rightarrow> subtractValueFromSum key old (mSumOverPastBuckets t))) k =
         cached (mSumOverPastBuckets t) k
           - pastBucketValue (mPastBuckets t ! index t bucketNum) k
           + pastBucketValue (Some (b(key \<mapsto> bucketValue))) k"
        unfolding b by (rule replaceValue_sums)
    qed
    then show ?thesis
      using live True b by (simp add: addPastBucketValue_def)
  qed
qed

lemma newAnomalyTracker_consistent:
  "pastBucketsConsistent (newAnomalyTracker threshold refractory numOfPastBuckets)"
  by (simp add: pastBucketsConsistent_def newAnomalyTracker_def valuesFrom_def
        getSumOverPastBuckets_def scanPastBuckets_def pastBucketValue_def sum_list_replicate)

lemma applyCall_consistent:
  "pastBucketsConsistent t \<Longrightarrow> callValuesFrom 0 c \<Longrightarrow> pastBucketsConsistent (applyCall c t)"
  by (cases c) (simp_all add: addPastBucket_consistent addPastBucketValue_consistent)

lemma applyCalls_consistent:
  "pastBucketsConsistent t \<Longrightarrow> \<forall>c \<in> set calls. callValuesFrom 0 c \<Longrightarrow>
     pastBucketsConsistent (applyCalls calls t)"
  unfolding applyCalls_def
  by (induction calls arbitrary: t) (simp_all add: applyCall_consistent)


lemma removeBucket_frame:
  "mRefractoryPeriodEndsSec (removeBucket n t) = mRefractoryPeriodEndsSec t \<and>
   mFired (removeBucket n t) = mFired t \<and>
   mSubscriptions (removeBucket n t) = mSubscriptions t \<and>
   trigger_if_sum_gt (removeBucket n t) = trigger_if_sum_gt t \<and>
   refractory_period_secs (removeBucket n t) = refractory_period_secs t"
  by (simp add: removeBucket_def)

lemma fold_removeBucket_frame:
  "mRefractoryPeriodEndsSec (fold removeBucket nums t) = mRefractoryPeriodEndsSec t \<and>
   mFired (fold removeBucket nums t) = mFired t \<and>
   mSubscriptions (fold removeBucket nums t) = mSubscriptions t \<and>
   trigger_if_sum_gt (fold removeBucket nums t) = trigger_if_sum_gt t \<and>
   refractory_period_secs (fold removeBucket nums t) = refractory_period_secs t"
  by (induction nums arbitrary: t) (simp_all add: removeBucket_frame)

lemma advance_frame:
  "mRefractoryPeriodEndsSec (advanceMostRecentBucketTo n t) = mRefractoryPeriodEndsSec t \<and>
   mFired (advanceMostRecentBucketTo n t) = mFired t \<and>
   mSubscriptions (advanceMostRecentBucketTo n t) = mSubscriptions t \<and>
   trigger_if_sum_gt (advanceMostRecentBucketTo n t) = trigger_if_sum_gt t \<and>
   refractory_period_secs (advanceMostRecentBucketTo n t) = refractory_period_secs t"
  by (simp add: advanceMostRecentBucketTo_def fold_removeBucket_frame)










lemma addSubscription_consistent:
  "pastBucketsConsistent (addSubscription sub t) = pastBucketsConsistent t"
  by (simp add: addSubscription_def pastBucketsConsistent_def getSumOverPastBuckets_def
        scanPastBuckets_def)

lemma two_bucket_tracker_eval:
  "two_bucket_tracker =
     \<lparr>trigger_if_sum_gt = 5, refractory_period_secs = 30, mSubscriptions = [''incidentd''],
      mNumOfPastBuckets = 2,
      mPastBuckets = [Some [''uid_1001'' \<mapsto> 3], Some [''uid_1001'' \<mapsto> 2]],
      mSumOverPastBuckets = [''uid_1001'' \<mapsto> 5], mMostRecentBucketNum = 1,
      mRefractoryPeriodEndsSec = Map.empty, mFired = []\<rparr>"
  apply (simp add: two_bucket_tracker_def applyCalls_def addPastBucketValue_def addPastBucket_def
        addSubscription_def newAnomalyTracker_def index_def advanceMostRecentBucketTo_def
        removeBucket_def Let_def addBucketToSum_def subtractBucketFromSum_def
        numeral_2_eq_2)
  apply (auto simp: fun_eq_iff)
  done

lemma detectAndDeclareAnomaly_consistent:
  assumes "pastBucketsConsistent t"
  shows "pastBucketsConsistent
           (detectAndDeclareAnomaly timestampNs currBucketNum metricId key currentBucketValue t)"
proof -
  have "pastBucketsConsistent (advanceMostRecentBucketTo (currBucketNum - 1) t)"
    using assms by (rule advance_consistent)
  then show ?thesis
    by (simp add: detectAndDeclareAnomaly_def detectAnomaly_def declareAnomaly_def
          informSubscribers_def Let_def pastBucketsConsistent_def getSumOverPastBuckets_def
          scanPastBuckets_def)
qed

subsection \<open>Anomaly detection and declaration\<close>

text \<open>
  C1. On a tracker whose cached sums agree with its ring of past buckets,
  \<open>detectAndDeclareAnomaly\<close> advances to the bucket before the current one and then
  declares the anomaly exactly when the sum of the stored past-bucket values of the key
  plus the value of the current bucket is greater than \<open>trigger_if_sum_gt\<close> and the
  timestamp is not in the key's refractory period: in that case the end of the
  refractory window is recorded for the key and every subscription is fired; in every
  other case the tracker is only advanced.
\<close>

theorem detectAndDeclareAnomaly_declares_iff:
  assumes "pastBucketsConsistent t"
  shows "detectAndDeclareAnomaly timestampNs currBucketNum metricId key currentBucketValue t =
     (let t1 = advanceMostRecentBucketTo (currBucketNum - 1) t in
      if scanPastBuckets t1 key + currentBucketValue > trigger_if_sum_gt t \<and>
         \<not> isInRefractoryPeriod timestampNs key t
      then t1\<lparr>mRefractoryPeriodEndsSec :=
                  (mRefractoryPeriodEndsSec t)(key \<mapsto> refractoryPeriodEnd timestampNs t),
              mFired := mFired t @
                  map (\<lambda>subscription. (subscription, key, metricId, currentBucketValue))
                    (mSubscriptions t)\<rparr>
      else t1)"
proof -
  define t1 where "t1 = advanceMostRecentBucketTo (currBucketNum - 1) t"
  have "pastBucketsConsistent t1"
    unfolding t1_def using assms by (rule advance_consistent)
  then have sum: "getSumOverPastBuckets t1 key = scanPastBuckets t1 key"
    by (simp add: pastBucketsConsistent_def)
  have frame: "mRefractoryPeriodEndsSec t1 = mRefractoryPeriodEndsSec t"
    "mFired t1 = mFired t" "mSubscriptions t1 = mSubscriptions t"
    "trigger_if_sum_gt t1 = trigger_if_sum_gt t"
    "refractory_period_secs t1 = refractory_period_secs t"
    unfolding t1_def by (simp_all add: advance_frame)
  have refr: "isInRefractoryPeriod timestampNs key t1 = isInRefractoryPeriod timestampNs key t"
    by (simp add: isInRefractoryPeriod_def getRefractoryPeriodEndsSec_def frame)
  have rend: "refractoryPeriodEnd timestampNs t1 = refractoryPeriodEnd timestampNs t"
    by (simp add: refractoryPeriodEnd_def frame)
  show ?thesis
    by (simp add: detectAndDeclareAnomaly_def detectAnomaly_def declareAnomaly_def
          informSubscribers_def getAnomalyThreshold_def Let_def t1_def [symmetric]
          sum frame refr rend)
qed

theorem detectAndDeclareAnomaly_declares_iff_witness:
  "mRefractoryPeriodEndsSec
     (detectAndDeclareAnomaly (10 * NS_PER_SEC) 2 7 ''uid_1001'' 1 two_bucket_tracker) ''uid_1001''
     = Some 40 \<and>
   mFired (detectAndDeclareAnomaly (10 * NS_PER_SEC) 2 7 ''uid_1001'' 1 two_bucket_tracker)
     = [(''incidentd'', ''uid_1001'', 7, 1)] \<and>
   mFired (detectAndDeclareAnomaly (10 * NS_PER_SEC) 2 7 ''uid_1001'' 0 two_bucket_tracker) = []"
proof -
  have inv: "pastBucketsConsistent two_bucket_tracker"
    unfolding two_bucket_tracker_def
    by (intro applyCalls_consistent) (simp_all add: addSubscription_consistent
          newAnomalyTracker_consistent)
  have adv: "advanceMostRecentBucketTo 1 two_bucket_tracker = two_bucket_tracker"
    by (simp add: advanceMostRecentBucketTo_def two_bucket_tracker_eval)
  have scan: "scanPastBuckets two_bucket_tracker ''uid_1001'' = 5"
    by (simp add: scanPastBuckets_def pastBucketValue_def two_bucket_tracker_eval)
  have fields: "trigger_if_sum_gt two_bucket_tracker = 5"
    "mSubscriptions two_bucket_tracker = [''incidentd'']"
    "mFired two_bucket_tracker = []"
    "\<not> isInRefractoryPeriod (10 * NS_PER_SEC) ''uid_1001'' two_bucket_tracker"
    "refractoryPeriodEnd (10 * NS_PER_SEC) two_bucket_tracker = 40"
    by (simp_all add: two_bucket_tracker_eval isInRefractoryPeriod_def
          getRefractoryPeriodEndsSec_def refractoryPeriodEnd_def NS_PER_SEC_def)
  show ?thesis
    using detectAndDeclareAnomaly_declares_iff [OF inv, of "10 * NS_PER_SEC" 2 7 "''uid_1001''" 1]
          detectAndDeclareAnomaly_declares_iff [OF inv, of "10 * NS_PER_SEC" 2 7 "''uid_1001''" 0]
    by (simp add: adv scan fields Let_def)
qed

subsection \<open>The cached sums and entries of 0\<close>



subsection \<open>Dimension keys: equality, hashing and the filter\<close>

lemma keyEq_iff: "keyEq k1 k2 \<longleftrightarrow> map maskedValue k1 = map maskedValue k2"
proof (induction k1 k2 rule: keyEq.induct)
  case (2 a as b bs)
  have "fieldValueEq a b \<longleftrightarrow> maskedValue a = maskedValue b"
    by (cases a, cases b) (auto simp: fieldValueEq_def maskedValue_def)
  with 2 show ?case by auto
qed simp_all

lemma fold_mix_masked:
  "fold (\<lambda>fieldValue hash.
           JenkinsHashMix env
             (JenkinsHashMix env hash (hash_field env (maskedField (mField fieldValue))))
             (hash_scalar env (mValue fieldValue))) key h =
   fold (\<lambda>fieldValue hash.
           JenkinsHashMix env (JenkinsHashMix env hash (hash_field env (mField fieldValue)))
             (hash_scalar env (mValue fieldValue))) (map maskedValue key) h"
  by (induction key arbitrary: h) (simp_all add: maskedValue_def)

lemma hashDimension_masked:
  "map maskedValue k1 = map maskedValue k2 \<Longrightarrow> hashDimension env k1 = hashDimension env k2"
  by (simp add: hashDimension_def fold_mix_masked)

lemma sameField_maskPosition [simp]: "sameField m (maskPosition fv) = sameField m fv"
  by (simp add: sameField_def maskPosition_def)

lemma maskPosition_idem [simp]: "maskPosition (maskPosition fv) = maskPosition fv"
  by (simp add: maskPosition_def)

lemma exactField_same: "exactField m fv \<Longrightarrow> sameField m fv"
  by (simp add: exactField_def)

lemma find_append_skip:
  "\<forall>x \<in> set xs. \<not> P x \<Longrightarrow> find P (xs @ ys) = find P ys"
  by (induction xs) simp_all

lemma find_append_skip2:
  "\<forall>x \<in> set xs. \<not> P x \<Longrightarrow> find P (ys @ xs) = find P ys"
  by (induction ys) (simp_all add: find_None_iff)

lemma filterMatcher_sameField:
  assumes "filterMatcher m values = Some out"
  shows "out \<noteq> [] \<and> (\<forall>fv \<in> set out. sameField m fv)"
  using assms
  by (cases "position m")
     (auto simp: filterMatcher_def find_Some_iff exactField_same
           split: option.splits if_splits)

lemma filterMatcher_idem:
  assumes "filterMatcher m values = Some out"
  shows "filterMatcher m out = Some out"
proof (cases "position m")
  case Position_EXACT
  with assms obtain fv where "find (exactField m) values = Some fv" "out = [fv]"
    by (auto simp: filterMatcher_def split: option.splits)
  then have "exactField m fv" by (auto simp: find_Some_iff)
  with \<open>out = [fv]\<close> Position_EXACT show ?thesis by (simp add: filterMatcher_def)
next
  case Position_FIRST
  with assms obtain fv where "find (sameField m) values = Some fv" "out = [maskPosition fv]"
    by (auto simp: filterMatcher_def split: option.splits)
  then have "sameField m fv" by (auto simp: find_Some_iff)
  with \<open>out = [maskPosition fv]\<close> Position_FIRST show ?thesis by (simp add: filterMatcher_def)
next
  case Position_LAST
  with assms obtain fv where "find (sameField m) (rev values) = Some fv" "out = [maskPosition fv]"
    by (auto simp: filterMatcher_def split: option.splits)
  then have "sameField m fv" by (auto simp: find_Some_iff)
  with \<open>out = [maskPosition fv]\<close> Position_LAST show ?thesis by (simp add: filterMatcher_def)
next
  case Position_ANY
  with assms obtain fv where "find (sameField m) values = Some fv" "out = [maskPosition fv]"
    by (auto simp: filterMatcher_def split: option.splits)
  then have "sameField m fv" by (auto simp: find_Some_iff)
  with \<open>out = [maskPosition fv]\<close> Position_ANY show ?thesis by (simp add: filterMatcher_def)
next
  case Position_ALL
  with assms have out: "out = map maskPosition (filter (sameField m) values)"
    and ne: "filter (sameField m) values \<noteq> []"
    by (auto simp: filterMatcher_def split: if_splits)
  have "filter (sameField m) out = out"
    unfolding out by (induction "values") simp_all
  moreover have "map maskPosition out = out"
    unfolding out by simp
  moreover have "out \<noteq> []" using ne out by simp
  ultimately show ?thesis using Position_ALL by (simp add: filterMatcher_def)
qed

lemma filterMatcher_skip:
  assumes "\<forall>fv \<in> set xs. \<not> sameField m fv"
  shows "filterMatcher m (xs @ ys) = filterMatcher m ys"
    and "filterMatcher m (ys @ xs) = filterMatcher m ys"
proof -
  have ex: "\<forall>fv \<in> set xs. \<not> exactField m fv"
    using assms exactField_same by blast
  have revs: "\<forall>fv \<in> set (rev xs). \<not> sameField m fv" using assms by simp
  have f1: "filter (sameField m) xs = []" using assms by (simp add: filter_empty_conv)
  show "filterMatcher m (xs @ ys) = filterMatcher m ys"
    by (cases "position m")
       (simp_all add: filterMatcher_def find_append_skip [OF assms] find_append_skip [OF ex]
          find_append_skip2 [OF revs] f1)
  show "filterMatcher m (ys @ xs) = filterMatcher m ys"
    by (cases "position m")
       (simp_all add: filterMatcher_def find_append_skip2 [OF assms] find_append_skip2 [OF ex]
          find_append_skip [OF revs] f1)
qed

lemma sameField_matcherField:
  "sameField m fv \<Longrightarrow> sameField m' fv \<Longrightarrow> matcherField m = matcherField m'"
  by (simp add: sameField_def matcherField_def)

lemma filterKey_skip:
  assumes "\<forall>m \<in> set ms. \<forall>fv \<in> set xs. \<not> sameField m fv"
  shows "filterKey ms (xs @ ys) = filterKey ms ys"
  using assms
  by (induction ms) (simp_all add: filterMatcher_skip(1) cong: option.case_cong)

lemma filterKey_sameField:
  "filterKey ms values = Some key \<Longrightarrow> \<forall>fv \<in> set key. \<exists>m \<in> set ms. sameField m fv"
proof (induction ms arbitrary: key)
  case Nil
  then show ?case by simp
next
  case (Cons m ms)
  from Cons.prems obtain out rest where
    out: "filterMatcher m values = Some out" and rest: "filterKey ms values = Some rest"
    and key: "key = out @ rest"
    by (auto split: option.splits)
  show ?case
    using filterMatcher_sameField [OF out] Cons.IH [OF rest] key by auto
qed

lemma filterKey_idem:
  "filterKey ms values = Some key \<Longrightarrow> distinctFields ms \<Longrightarrow> filterKey ms key = Some key"
proof (induction ms arbitrary: key)
  case Nil
  then show ?case by simp
next
  case (Cons m ms)
  from Cons.prems(1) obtain out rest where
    out: "filterMatcher m values = Some out" and rest: "filterKey ms values = Some rest"
    and key: "key = out @ rest"
    by (auto split: option.splits)
  from Cons.prems(2) have fresh: "matcherField m \<notin> matcherField ` set ms"
    and dist: "distinctFields ms"
    by (simp_all add: distinctFields_def)
  have out_same: "\<forall>fv \<in> set out. sameField m fv"
    using filterMatcher_sameField [OF out] by simp
  have rest_other: "\<forall>fv \<in> set rest. \<not> sameField m fv"
  proof
    fix fv assume "fv \<in> set rest"
    with filterKey_sameField [OF rest] obtain m' where "m' \<in> set ms" "sameField m' fv"
      by blast
    with fresh show "\<not> sameField m fv"
      using sameField_matcherField [of m fv m'] by auto
  qed
  have out_other: "\<forall>m' \<in> set ms. \<forall>fv \<in> set out. \<not> sameField m' fv"
  proof (intro ballI)
    fix m' fv assume "m' \<in> set ms" "fv \<in> set out"
    with out_same fresh show "\<not> sameField m' fv"
      using sameField_matcherField [of m fv m'] by auto
  qed
  have "filterMatcher m (out @ rest) = Some out"
    using filterMatcher_skip(2) [OF rest_other, of out] filterMatcher_idem [OF out] by simp
  moreover have "filterKey ms (out @ rest) = Some rest"
    using filterKey_skip [OF out_other, of rest] Cons.IH [OF rest dist] by simp
  ultimately show ?case by (simp add: key)
qed

text \<open>
  C3. Two dimension keys are equal exactly when their value vectors are equal value by
  value after position masking, and equal keys have equal hashes. Keys built from uid
  1000 at the chain positions 5 and 6 by a \<open>LAST\<close> matcher are equal and hash alike,
  while the unmasked values at positions 5 and 6 are different keys.
\<close>

theorem keyEq_masked_and_hash:
  "(keyEq k1 k2 \<longleftrightarrow> map maskedValue k1 = map maskedValue k2) \<and>
   (keyEq k1 k2 \<longrightarrow> hash_HashableDimensionKey env k1 = hash_HashableDimensionKey env k2)"
proof (intro conjI impI)
  show "keyEq k1 k2 \<longleftrightarrow> map maskedValue k1 = map maskedValue k2"
    by (rule keyEq_iff)
next
  assume "keyEq k1 k2"
  then have "map maskedValue k1 = map maskedValue k2"
    by (simp add: keyEq_iff)
  then show "hash_HashableDimensionKey env k1 = hash_HashableDimensionKey env k2"
    unfolding hash_HashableDimensionKey_def by (rule hashDimension_masked)
qed

theorem keyEq_masked_and_hash_witness:
  "filterKey [uidMatcher Position_LAST] [uidAt 1 7, uidAt 5 1000]
     = Some [maskPosition (uidAt 5 1000)] \<and>
   filterKey [uidMatcher Position_LAST] [uidAt 1 7, uidAt 2 8, uidAt 6 1000]
     = Some [maskPosition (uidAt 6 1000)] \<and>
   keyEq [maskPosition (uidAt 5 1000)] [maskPosition (uidAt 6 1000)] \<and>
   hash_HashableDimensionKey sum_hash_env [maskPosition (uidAt 5 1000)] =
     hash_HashableDimensionKey sum_hash_env [maskPosition (uidAt 6 1000)] \<and>
   \<not> keyEq [uidAt 5 1000] [uidAt 6 1000]"
proof -
  have masked: "map maskedValue [maskPosition (uidAt 5 1000)] =
                map maskedValue [maskPosition (uidAt 6 1000)]"
    by (simp add: maskedValue_def maskedField_def maskPosition_def uidAt_def)
  have plain: "map maskedValue [uidAt 5 1000] \<noteq> map maskedValue [uidAt 6 1000]"
    by (simp add: maskedValue_def maskedField_def uidAt_def)
  have filtered:
    "filterKey [uidMatcher Position_LAST] [uidAt 1 7, uidAt 5 1000]
       = Some [maskPosition (uidAt 5 1000)]"
    "filterKey [uidMatcher Position_LAST] [uidAt 1 7, uidAt 2 8, uidAt 6 1000]
       = Some [maskPosition (uidAt 6 1000)]"
    by (simp_all add: filterMatcher_def uidMatcher_def uidAt_def sameField_def)
  note masked_keys = keyEq_masked_and_hash [of "[maskPosition (uidAt 5 1000)]"
            "[maskPosition (uidAt 6 1000)]" sum_hash_env]
  note plain_keys = keyEq_masked_and_hash [of "[uidAt 5 1000]" "[uidAt 6 1000]" sum_hash_env]
  have eq: "keyEq [maskPosition (uidAt 5 1000)] [maskPosition (uidAt 6 1000)]"
    using masked_keys [THEN conjunct1] masked by (rule iffD2)
  have hash: "hash_HashableDimensionKey sum_hash_env [maskPosition (uidAt 5 1000)] =
     hash_HashableDimensionKey sum_hash_env [maskPosition (uidAt 6 1000)]"
    using masked_keys [THEN conjunct2] eq by (rule mp)
  have neq: "\<not> keyEq [uidAt 5 1000] [uidAt 6 1000]"
  proof
    assume "keyEq [uidAt 5 1000] [uidAt 6 1000]"
    with plain_keys [THEN conjunct1]
    have "map maskedValue [uidAt 5 1000] = map maskedValue [uidAt 6 1000]"
      by (rule iffD1)
    with plain show False by (rule notE)
  qed
  show ?thesis
    by (intro conjI) (rule filtered eq hash neq)+
qed

text \<open>
  The filter applied to its own result. Filtering a key again with the same matcher list
  returns it unchanged when the matchers select pairwise different fields
  (\<open>filterKey_idem\<close>). A list that holds the \<open>ALL\<close> matcher of one field twice produces
  the occurrences of the field twice, and from that key four times.
\<close>

lemma filterKey_all_twice:
  "filterKey [uidMatcher Position_ALL, uidMatcher Position_ALL] [uidAt 1 1000] =
     Some [maskPosition (uidAt 1 1000), maskPosition (uidAt 1 1000)] \<and>
   filterKey [uidMatcher Position_ALL, uidMatcher Position_ALL]
       [maskPosition (uidAt 1 1000), maskPosition (uidAt 1 1000)] =
     Some [maskPosition (uidAt 1 1000), maskPosition (uidAt 1 1000),
           maskPosition (uidAt 1 1000), maskPosition (uidAt 1 1000)]"
  by (simp add: filterMatcher_def uidMatcher_def uidAt_def sameField_def maskPosition_def)

end
